theory Spec2Isabelle
  imports Complex_Main "HOL-Library.Word" "HOL-Library.Sublist" "HOL-Library.AList"
begin

section \<open>Python strings\<close>

text \<open>
  A Python \<open>str\<close> is modelled as a \<open>string\<close>, a list of 8-bit characters read as the
  code points U+0000 to U+00FF; texts with other characters are outside the model.

  \<open>str.strip\<close> removes the characters for which \<open>str.isspace\<close> holds. In this range
  they are the code points 9 to 13, 28 to 32, U+0085 and U+00A0.

  \<open>str.lower\<close> maps A to Z and the letters U+00C0 to U+00DE (without the sign U+00D7)
  to the letter 32 code points higher and leaves every other character of the range as it
  is. \<open>str.upper\<close> maps a to z and the letters U+00E0 to U+00FE (without the sign U+00F7)
  to the letter 32 code points lower. Three characters of the range have an upper-case
  form that is not one character of the range: U+00B5 (to U+039C), U+00DF (to \<open>SS\<close>)
  and U+00FF (to U+0178). The model leaves these three as they are; a text that contains
  one of them is outside the model where it is upper-cased.
\<close>

definition whitespace :: string where
  "whitespace = [CHR 0x09, CHR 0x0A, CHR 0x0B, CHR 0x0C, CHR 0x0D,
                 CHR 0x1C, CHR 0x1D, CHR 0x1E, CHR 0x1F, CHR 0x20,
                 CHR 0x85, CHR 0xA0]"

definition lowercase :: string where
  "lowercase = ''abcdefghijklmnopqrstuvwxyz'' @
       [CHR 0xE0, CHR 0xE1, CHR 0xE2, CHR 0xE3, CHR 0xE4, CHR 0xE5, CHR 0xE6, CHR 0xE7,
        CHR 0xE8, CHR 0xE9, CHR 0xEA, CHR 0xEB, CHR 0xEC, CHR 0xED, CHR 0xEE, CHR 0xEF,
        CHR 0xF0, CHR 0xF1, CHR 0xF2, CHR 0xF3, CHR 0xF4, CHR 0xF5, CHR 0xF6, CHR 0xF8,
        CHR 0xF9, CHR 0xFA, CHR 0xFB, CHR 0xFC, CHR 0xFD, CHR 0xFE]"

definition uppercase :: string where
  "uppercase = ''ABCDEFGHIJKLMNOPQRSTUVWXYZ'' @
       [CHR 0xC0, CHR 0xC1, CHR 0xC2, CHR 0xC3, CHR 0xC4, CHR 0xC5, CHR 0xC6, CHR 0xC7,
        CHR 0xC8, CHR 0xC9, CHR 0xCA, CHR 0xCB, CHR 0xCC, CHR 0xCD, CHR 0xCE, CHR 0xCF,
        CHR 0xD0, CHR 0xD1, CHR 0xD2, CHR 0xD3, CHR 0xD4, CHR 0xD5, CHR 0xD6, CHR 0xD8,
        CHR 0xD9, CHR 0xDA, CHR 0xDB, CHR 0xDC, CHR 0xDD, CHR 0xDE]"

definition is_space :: "char \<Rightarrow> bool" where
  "is_space c = (c \<in> set whitespace)"

definition upper_char :: "char \<Rightarrow> char" where
  "upper_char c = (case map_of (zip lowercase uppercase) c of None \<Rightarrow> c | Some u \<Rightarrow> u)"

definition lower_char :: "char \<Rightarrow> char" where
  "lower_char c = (case map_of (zip uppercase lowercase) c of None \<Rightarrow> c | Some l \<Rightarrow> l)"

definition py_upper :: "string \<Rightarrow> string" where
  "py_upper s = map upper_char s"

definition py_lower :: "string \<Rightarrow> string" where
  "py_lower s = map lower_char s"

definition py_strip :: "string \<Rightarrow> string" where
  "py_strip s = rev (dropWhile is_space (rev (dropWhile is_space s)))"

section \<open>The purchase confirmation gate (server.py)\<close>

subsection \<open>Code generation\<close>

text \<open>
  \<open>_generate_confirmation_code\<close> is \<open>secrets.token_hex(3).upper()\<close>. The library's
  \<open>token_hex(n)\<close> draws \<open>n\<close> random bytes and writes each as two lower-case hexadecimal
  digits, high nibble first. The three random bytes are an input of the model.
\<close>

definition hexdigits :: string where
  "hexdigits = ''0123456789abcdef''"

definition hexlify_byte :: "8 word \<Rightarrow> string" where
  "hexlify_byte b = [hexdigits ! (unat b div 16), hexdigits ! (unat b mod 16)]"

definition token_hex :: "8 word list \<Rightarrow> string" where
  "token_hex bs = concat (map hexlify_byte bs)"

fun generate_confirmation_code :: "8 word \<times> 8 word \<times> 8 word \<Rightarrow> string" where
  "generate_confirmation_code (b0, b1, b2) = py_upper (token_hex [b0, b1, b2])"

subsection \<open>The pending-confirmation store\<close>

text \<open>
  \<open>_pending_confirmations\<close> is a dict from code to \<open>{"created_at", "url"}\<close>. It is
  modelled as an association list in insertion order, with the dict operations of
  \<open>AList\<close>: \<open>d[k] = v\<close> is \<open>AList.update\<close> (in place when the key is there, appended
  otherwise), \<open>del d[k]\<close> is \<open>AList.delete\<close>, \<open>k in d\<close> and \<open>d[k]\<close> are \<open>map_of\<close>.
  A dict has no duplicate keys: \<open>distinct (map fst p)\<close>.
  Timestamps (\<open>time.time()\<close>, a float of seconds) are modelled as reals; every call of
  \<open>time.time()\<close> is an input of the model.
\<close>

record confirmation =
  created_at :: real
  url :: string

type_synonym pending = "(string \<times> confirmation) list"

definition CONFIRMATION_TTL :: real where
  "CONFIRMATION_TTL = 300"

definition cleanup_expired_confirmations :: "real \<Rightarrow> pending \<Rightarrow> pending" where
  "cleanup_expired_confirmations now p =
     (let expired = map fst (filter (\<lambda>(k, v). now - created_at v > CONFIRMATION_TTL) p)
      in fold AList.delete expired p)"

text \<open>
  The handlers return a dict whose \<open>"status"\<close> field tells the cases apart; the model
  keeps the status and the fields the gate decides: \<open>NoProfile\<close> is status \<open>error\<close>,
  \<open>Preview code\<close> is status \<open>preview\<close> with its confirmation code, \<open>Rejected\<close> is
  status \<open>rejected\<close>, \<open>Accepted code checkout_url\<close> is status \<open>stub\<close>. \<open>SummaryRaised\<close>
  stands for an exception of \<open>get_redacted_summary\<close> leaving the preview handler.
\<close>

datatype response =
    NoProfile
  | Preview string
  | SummaryRaised
  | Rejected
  | Accepted string string

text \<open>
  \<open>_handle_preview_checkout\<close>. Inputs besides the store: whether a profile exists,
  whether the redacted summary can be read, the clock at the sweep and at the insertion,
  the random bytes of the code, and the optional \<open>url\<close> argument.
\<close>

definition handle_preview_checkout ::
  "bool \<Rightarrow> bool \<Rightarrow> real \<Rightarrow> real \<Rightarrow> 8 word \<times> 8 word \<times> 8 word \<Rightarrow> string option \<Rightarrow> pending
     \<Rightarrow> pending \<times> response" where
  "handle_preview_checkout profile_exists summary_ok now_sweep now_store rnd url_arg p =
     (if \<not> profile_exists then (p, NoProfile)
      else
        let p1 = cleanup_expired_confirmations now_sweep p;
            code = generate_confirmation_code rnd;
            p2 = AList.update code
                   \<lparr>created_at = now_store,
                    url = (case url_arg of None \<Rightarrow> ''current_cart'' | Some u \<Rightarrow> u)\<rparr> p1
        in if summary_ok then (p2, Preview code) else (p2, SummaryRaised))"

text \<open>\<open>_handle_confirm_purchase\<close>: the supplied code is trimmed and upper-cased first.\<close>

definition handle_confirm_purchase :: "real \<Rightarrow> string \<Rightarrow> pending \<Rightarrow> pending \<times> response" where
  "handle_confirm_purchase now supplied p =
     (let code = py_upper (py_strip supplied);
          p1 = cleanup_expired_confirmations now p
      in case map_of p1 code of
           None \<Rightarrow> (p1, Rejected)
         | Some confirmation \<Rightarrow> (AList.delete code p1, Accepted code (url confirmation)))"

subsection \<open>Sequences of gate calls\<close>

text \<open>
  The tool dispatcher calls the two handlers one at a time on the shared store. A call
  carries the inputs of its handler; \<open>gate_step\<close> is the store after the call.
\<close>

datatype gate_call =
    CallPreview bool bool real real "8 word \<times> 8 word \<times> 8 word" "string option"
  | CallConfirm real string

fun gate_step :: "gate_call \<Rightarrow> pending \<Rightarrow> pending" where
  "gate_step (CallPreview profile_exists summary_ok now_sweep now_store rnd url_arg) p =
     fst (handle_preview_checkout profile_exists summary_ok now_sweep now_store rnd url_arg p)"
| "gate_step (CallConfirm now supplied) p = fst (handle_confirm_purchase now supplied p)"

text \<open>A call stores code \<open>c\<close> when it is a preview that generates \<open>c\<close>.\<close>

fun stores_code :: "gate_call \<Rightarrow> string \<Rightarrow> bool" where
  "stores_code (CallPreview profile_exists summary_ok now_sweep now_store rnd url_arg) c =
     (profile_exists \<and> generate_confirmation_code rnd = c)"
| "stores_code (CallConfirm now supplied) c = False"

text \<open>A call names code \<open>c\<close> when it stores it or is a confirm call that supplies it.\<close>

fun names_code :: "gate_call \<Rightarrow> string \<Rightarrow> bool" where
  "names_code (CallPreview profile_exists summary_ok now_sweep now_store rnd url_arg) c =
     (profile_exists \<and> generate_confirmation_code rnd = c)"
| "names_code (CallConfirm now supplied) c = (py_upper (py_strip supplied) = c)"

text \<open>The clock reading a call sweeps with (a preview without a profile does not sweep).\<close>

fun sweep_time :: "gate_call \<Rightarrow> real option" where
  "sweep_time (CallPreview profile_exists summary_ok now_sweep now_store rnd url_arg) =
     (if profile_exists then Some now_sweep else None)"
| "sweep_time (CallConfirm now supplied) = Some now"

text \<open>The upper-case hexadecimal digits, for stating what a generated code consists of.\<close>

definition HEXUPPER :: string where
  "HEXUPPER = ''0123456789ABCDEF''"

section \<open>The browser session (browser.py)\<close>

text \<open>
  \<open>BrowserManager\<close> holds the driver, the browser and the context (each \<open>None\<close> or an
  object: the model keeps whether it is set), the ordered list of tabs and the index of
  the active tab. A page handle is a number. What the Playwright driver does when it is
  called is not decided by this code: it is an input, the record \<open>driver\<close>, whose fields
  say for each driver call whether it returns or raises.
\<close>

type_synonym page = nat

datatype exn =
    StartFailed
  | LaunchFailed
  | NewContextFailed
  | NewPageFailed
  | NavigationFailed
  | CloseFailed

record driver =
  is_connected :: bool
  start_ok :: bool
  launch_ok :: bool
  new_context_ok :: bool
  context_new_page :: "page option"
  goto_ok :: "page \<Rightarrow> string \<Rightarrow> bool"
  page_info :: "page \<Rightarrow> (string \<times> string) option"
  page_close_ok :: "page \<Rightarrow> bool"
  context_close_ok :: bool
  browser_close_ok :: bool
  playwright_stop_ok :: bool

record browser_manager =
  playwright :: bool
  browser :: bool
  browser_context :: bool
  tabs :: "page list"
  active_tab_index :: int

definition browser_manager_init :: browser_manager where
  "browser_manager_init =
     \<lparr>playwright = False, browser = False, browser_context = False, tabs = [], active_tab_index = - 1\<rparr>"

definition active_page :: "browser_manager \<Rightarrow> page option" where
  "active_page s =
     (if 0 \<le> active_tab_index s \<and> active_tab_index s < int (length (tabs s))
      then Some (tabs s ! nat (active_tab_index s)) else None)"

definition ensure_browser :: "driver \<Rightarrow> browser_manager \<Rightarrow> browser_manager \<times> (exn + unit)" where
  "ensure_browser d s =
     (if browser s \<and> is_connected d then (s, Inr ())
      else if \<not> start_ok d then (s, Inl StartFailed)
      else let s1 = s\<lparr>playwright := True\<rparr>
           in if \<not> launch_ok d then (s1, Inl LaunchFailed)
              else (s1\<lparr>browser := True\<rparr>, Inr ()))"

definition ensure_context :: "driver \<Rightarrow> browser_manager \<Rightarrow> browser_manager \<times> (exn + unit)" where
  "ensure_context d s =
     (if browser_context s then (s, Inr ())
      else case ensure_browser d s of
             (s1, Inl e) \<Rightarrow> (s1, Inl e)
           | (s1, Inr u) \<Rightarrow>
               if \<not> new_context_ok d then (s1, Inl NewContextFailed)
               else (s1\<lparr>browser_context := True\<rparr>, Inr ()))"

definition new_page :: "driver \<Rightarrow> string \<Rightarrow> browser_manager \<Rightarrow> browser_manager \<times> (exn + page)" where
  "new_page d target s =
     (case ensure_context d s of
        (s1, Inl e) \<Rightarrow> (s1, Inl e)
      | (s1, Inr u) \<Rightarrow>
          (case context_new_page d of
             None \<Rightarrow> (s1, Inl NewPageFailed)
           | Some pg \<Rightarrow>
               if \<not> goto_ok d pg target then (s1, Inl NavigationFailed)
               else let s2 = s1\<lparr>tabs := tabs s1 @ [pg]\<rparr>;
                        s3 = s2\<lparr>active_tab_index := int (length (tabs s2)) - 1\<rparr>
                    in (s3, Inr pg)))"

definition open_in_new_tab :: "driver \<Rightarrow> string \<Rightarrow> browser_manager \<Rightarrow> browser_manager \<times> (exn + page)" where
  "open_in_new_tab d target s = new_page d target s"

definition switch_tab :: "int \<Rightarrow> browser_manager \<Rightarrow> browser_manager \<times> page option" where
  "switch_tab i s =
     (if 0 \<le> i \<and> i < int (length (tabs s))
      then (s\<lparr>active_tab_index := i\<rparr>, Some (tabs s ! nat i))
      else (s, None))"

datatype tab_info = TabInfo int string string bool

definition get_tab_list :: "driver \<Rightarrow> browser_manager \<Rightarrow> tab_info list" where
  "get_tab_list d s =
     map (\<lambda>(i, pg).
            case page_info d pg of
              None \<Rightarrow> TabInfo (int i) ''(closed)'' ''(closed)'' (int i = active_tab_index s)
            | Some (u, t) \<Rightarrow> TabInfo (int i) u t (int i = active_tab_index s))
         (enumerate 0 (tabs s))"

text \<open>
  \<open>close\<close>. Every driver call of the teardown stands in \<open>try: ... except Exception: pass\<close>;
  \<open>suppress\<close> is that handler. The calls made are logged, in order.
\<close>

datatype driver_call = PageClose page | ContextClose | BrowserClose | PlaywrightStop

definition call_result :: "bool \<Rightarrow> exn + unit" where
  "call_result ok = (if ok then Inr () else Inl CloseFailed)"

definition suppress :: "exn + unit \<Rightarrow> exn + unit" where
  "suppress r = (case r of Inl e \<Rightarrow> Inr () | Inr u \<Rightarrow> Inr u)"

fun close_tabs :: "driver \<Rightarrow> page list \<Rightarrow> driver_call list \<times> (exn + unit)" where
  "close_tabs d [] = ([], Inr ())"
| "close_tabs d (pg # pgs) =
     (case suppress (call_result (page_close_ok d pg)) of
        Inl e \<Rightarrow> ([PageClose pg], Inl e)
      | Inr u \<Rightarrow> (case close_tabs d pgs of (calls, r) \<Rightarrow> (PageClose pg # calls, r)))"

definition close_step ::
  "bool \<Rightarrow> driver_call \<Rightarrow> bool \<Rightarrow> driver_call list \<times> (exn + unit)" where
  "close_step held c ok =
     (if held then ([c], suppress (call_result ok)) else ([], Inr ()))"

definition close :: "driver \<Rightarrow> browser_manager \<Rightarrow> browser_manager \<times> driver_call list \<times> (exn + unit)" where
  "close d s =
     (case close_tabs d (tabs s) of
        (calls0, Inl e) \<Rightarrow> (s, calls0, Inl e)
      | (calls0, Inr u) \<Rightarrow>
          let s1 = s\<lparr>tabs := [], active_tab_index := - 1\<rparr>
          in (case close_step (browser_context s1) ContextClose (context_close_ok d) of
                (calls1, Inl e) \<Rightarrow> (s1, calls0 @ calls1, Inl e)
              | (calls1, Inr u) \<Rightarrow>
                  let s2 = s1\<lparr>browser_context := False\<rparr>
                  in (case close_step (browser s2) BrowserClose (browser_close_ok d) of
                        (calls2, Inl e) \<Rightarrow> (s2, calls0 @ calls1 @ calls2, Inl e)
                      | (calls2, Inr u) \<Rightarrow>
                          let s3 = s2\<lparr>browser := False\<rparr>
                          in (case close_step (playwright s3) PlaywrightStop (playwright_stop_ok d) of
                                (calls3, Inl e) \<Rightarrow> (s3, calls0 @ calls1 @ calls2 @ calls3, Inl e)
                              | (calls3, Inr u) \<Rightarrow>
                                  (s3\<lparr>playwright := False\<rparr>, calls0 @ calls1 @ calls2 @ calls3, Inr ())))))"

text \<open>The operations on a session, each with the driver behaviour it meets.\<close>

datatype session_op =
    NewPage driver string
  | OpenInNewTab driver string
  | SwitchTab int
  | GetTabList driver
  | Close driver

fun session_step :: "session_op \<Rightarrow> browser_manager \<Rightarrow> browser_manager" where
  "session_step (NewPage d target) s = fst (new_page d target s)"
| "session_step (OpenInNewTab d target) s = fst (open_in_new_tab d target s)"
| "session_step (SwitchTab i) s = fst (switch_tab i s)"
| "session_step (GetTabList d) s = s"
| "session_step (Close d) s = fst (close d s)"

definition session_inv :: "browser_manager \<Rightarrow> bool" where
  "session_inv s =
     (((0 \<le> active_tab_index s \<and> active_tab_index s < int (length (tabs s))) \<longleftrightarrow> tabs s \<noteq> [])
      \<and> (active_tab_index s = - 1 \<longleftrightarrow> tabs s = []))"


text \<open>
  Two driver behaviours for the examples: one where every call returns (the new page is
  handle 7), and one where navigation and every close call raise.
\<close>

definition driver_ok :: driver where
  "driver_ok =
     \<lparr>is_connected = True, start_ok = True, launch_ok = True, new_context_ok = True,
      context_new_page = Some 7, goto_ok = (\<lambda>pg target. True),
      page_info = (\<lambda>pg. Some (''https://www.amazon.com/'', ''Amazon'')),
      page_close_ok = (\<lambda>pg. True), context_close_ok = True, browser_close_ok = True,
      playwright_stop_ok = True\<rparr>"

definition driver_failing :: driver where
  "driver_failing =
     \<lparr>is_connected = True, start_ok = True, launch_ok = True, new_context_ok = True,
      context_new_page = Some 7, goto_ok = (\<lambda>pg target. False),
      page_info = (\<lambda>pg. None),
      page_close_ok = (\<lambda>pg. False), context_close_ok = False, browser_close_ok = False,
      playwright_stop_ok = False\<rparr>"

section \<open>The element resolver (element_resolver.py)\<close>

subsection \<open>Substring search\<close>

text \<open>
  \<open>str.find\<close>: the index of the first occurrence, or -1. \<open>pat in s\<close> is \<open>py_contains\<close>.
  \<open>str.split(sep)\<close> for a non-empty separator cuts at every occurrence from the left
  (Python raises \<open>ValueError\<close> for an empty separator; the resolver's separators are
  constants and not empty).
\<close>

definition shift_index :: "int \<Rightarrow> int" where
  "shift_index r = (if r < 0 then - 1 else r + 1)"

fun py_find :: "string \<Rightarrow> string \<Rightarrow> int" where
  "py_find pat [] = (if pat = [] then 0 else - 1)"
| "py_find pat (c # cs) =
     (if prefix pat (c # cs) then 0 else shift_index (py_find pat cs))"

definition py_contains :: "string \<Rightarrow> string \<Rightarrow> bool" where
  "py_contains pat s = (0 \<le> py_find pat s)"

function py_split :: "string \<Rightarrow> string \<Rightarrow> string list" where
  "py_split sep s =
     (if sep = [] \<or> py_find sep s < 0 then [s]
      else take (nat (py_find sep s)) s
             # py_split sep (drop (nat (py_find sep s) + length sep) s))"
  by pat_completeness auto
termination
proof (relation "measure (\<lambda>(sep, s). length s)")
  show "wf (measure (\<lambda>(sep, s). length s))" by simp
next
  fix sep s :: string
  assume a: "\<not> (sep = [] \<or> py_find sep s < 0)"
  have bound: "0 \<le> py_find pat t \<Longrightarrow> nat (py_find pat t) + length pat \<le> length t"
    for pat t :: string
  proof (induction t)
    case Nil
    then show ?case by (simp split: if_splits)
  next
    case (Cons c cs)
    show ?case
    proof (cases "prefix pat (c # cs)")
      case True
      then show ?thesis using prefix_length_le by fastforce
    next
      case False
      with Cons.prems have "0 \<le> py_find pat cs"
        by (simp add: shift_index_def split: if_splits)
      with Cons.IH False show ?thesis by (simp add: shift_index_def nat_add_distrib)
    qed
  qed
  from a have b: "nat (py_find sep s) + length sep \<le> length s"
    using bound [of sep s] by simp
  from a obtain c cs where "sep = c # cs" by (cases sep) auto
  then have "length sep = Suc (length cs)" by simp
  with b have "length s - (nat (py_find sep s) + length sep) < length s" by arith
  then show "((sep, drop (nat (py_find sep s) + length sep) s), (sep, s))
      \<in> measure (\<lambda>(sep, s). length s)" by simp
qed

subsection \<open>The static tables\<close>

definition dq :: string where
  "dq = [CHR 0x22]"

definition nl :: string where
  "nl = [CHR 0x0A]"

definition RETAILER_URL_PATTERNS :: "(string \<times> string list) list" where
  "RETAILER_URL_PATTERNS =
     [(''amazon'', [''amazon.com'', ''amazon.co.uk'', ''amazon.ca'']),
      (''bestbuy'', [''bestbuy.com'']),
      (''walmart'', [''walmart.com'']),
      (''target'', [''target.com'']),
      (''newegg'', [''newegg.com'']),
      (''ebay'', [''ebay.com''])]"

definition KNOWN_SELECTORS :: "(string \<times> (string \<times> string) list) list" where
  "KNOWN_SELECTORS =
     [(''amazon'',
       [(''search box'', ''#twotabsearchtextbox''),
        (''search field'', ''#twotabsearchtextbox''),
        (''search input'', ''#twotabsearchtextbox''),
        (''search bar'', ''#twotabsearchtextbox''),
        (''search amazon'', ''#twotabsearchtextbox''),
        (''search button'', ''#nav-search-submit-button''),
        (''submit search'', ''#nav-search-submit-button''),
        (''add to cart'', ''#add-to-cart-button''),
        (''add to cart button'', ''#add-to-cart-button''),
        (''buy now'', ''#buy-now-button''),
        (''buy now button'', ''#buy-now-button''),
        (''quantity'', ''select#quantity''),
        (''quantity selector'', ''select#quantity''),
        (''quantity dropdown'', ''select#quantity''),
        (''see all reviews'', ''a[data-hook='' @ dq @ ''see-all-reviews-link-foot'' @ dq @ '']''),
        (''all reviews'', ''a[data-hook='' @ dq @ ''see-all-reviews-link-foot'' @ dq @ '']''),
        (''reviews link'', ''a[data-hook='' @ dq @ ''see-all-reviews-link-foot'' @ dq @ '']''),
        (''next page'', ''ul.a-pagination li.a-last a''),
        (''next'', ''ul.a-pagination li.a-last a'')]),
      (''bestbuy'',
       [(''search box'', ''#gh-search-input''),
        (''search field'', ''#gh-search-input''),
        (''add to cart'', ''button.add-to-cart-button''),
        (''add to cart button'', ''button.add-to-cart-button'')]),
      (''walmart'',
       [(''search box'', ''input[type='' @ dq @ ''search'' @ dq @ '']''),
        (''search field'', ''input[type='' @ dq @ ''search'' @ dq @ '']''),
        (''add to cart'', ''button[data-testid='' @ dq @ ''add-to-cart-button'' @ dq @ '']''),
        (''add to cart button'', ''button[data-testid='' @ dq @ ''add-to-cart-button'' @ dq @ '']'')])]"

text \<open>
  \<open>_detect_retailer\<close>: the first retailer, in table order, one of whose patterns occurs in
  the lower-cased url.
\<close>

fun detect_in :: "(string \<times> string list) list \<Rightarrow> string \<Rightarrow> string option" where
  "detect_in [] url_lower = None"
| "detect_in ((retailer, patterns) # rest) url_lower =
     (if list_ex (\<lambda>pattern. py_contains pattern url_lower) patterns then Some retailer
      else detect_in rest url_lower)"

definition detect_retailer :: "string \<Rightarrow> string option" where
  "detect_retailer u = detect_in RETAILER_URL_PATTERNS (py_lower u)"

definition fast_resolve :: "string \<Rightarrow> string \<Rightarrow> string option" where
  "fast_resolve description u =
     (case detect_retailer u of
        None \<Rightarrow> None
      | Some retailer \<Rightarrow>
          (case map_of KNOWN_SELECTORS retailer of
             None \<Rightarrow> None
           | Some selectors \<Rightarrow> map_of selectors (py_strip (py_lower description))))"

subsection \<open>The prompt\<close>

definition max_length :: nat where
  "max_length = 100000"

definition truncation_marker :: string where
  "truncation_marker = nl @ ''<!-- HTML truncated -->''"

text \<open>Lines 175 to 183: a slice \<open>s[a : a + n]\<close> is \<open>take n (drop a s)\<close>.\<close>

definition truncate_html :: "string \<Rightarrow> string" where
  "truncate_html page_html =
     (if length page_html > max_length
      then (if py_find ''<body'' page_html > 0
            then take max_length (drop (nat (py_find ''<body'' page_html)) page_html)
            else take max_length page_html) @ truncation_marker
      else page_html)"

definition build_prompt :: "string \<Rightarrow> string \<Rightarrow> string \<Rightarrow> string" where
  "build_prompt description element_type page_html =
     ''Find the element matching this description:'' @ nl
     @ dq @ description @ dq @ nl
     @ nl
     @ ''Element type hint: '' @ element_type @ nl
     @ nl
     @ ''PAGE HTML:'' @ nl
     @ ''```html'' @ nl
     @ page_html @ nl
     @ ''```'' @ nl
     @ nl
     @ ''Return JSON with selector, found, and reason.''"

text \<open>
  \<open>page_elements\<close> is a dict; the resolver reads its keys \<open>"url"\<close> and \<open>"html"\<close>, each
  with the default \<open>""\<close> when the key is missing.
\<close>

record page_elements =
  elements_url :: "string option"
  elements_html :: "string option"

definition get_url :: "page_elements \<Rightarrow> string" where
  "get_url pe = (case elements_url pe of None \<Rightarrow> [] | Some u \<Rightarrow> u)"

definition get_html :: "page_elements \<Rightarrow> string" where
  "get_html pe = (case elements_html pe of None \<Rightarrow> [] | Some h \<Rightarrow> h)"

definition resolver_prompt :: "string \<Rightarrow> string \<Rightarrow> page_elements \<Rightarrow> string" where
  "resolver_prompt description element_type pe =
     build_prompt description element_type (truncate_html (get_html pe))"

subsection \<open>The reply and the retry loop\<close>

text \<open>
  The value \<open>json.loads\<close> returns. \<open>json.loads\<close> itself is the standard library's and is
  an input of the model: a function from the text to the parsed value, \<open>None\<close> where it
  raises \<open>JSONDecodeError\<close>. A \<open>JObject\<close> carries the dict in insertion order, each
  key once. \<open>JNull\<close> is Python's \<open>None\<close>, which is also what \<open>resolve_selector\<close>
  returns for not-found.
\<close>

datatype json =
    JNull
  | JBool bool
  | JNumber real
  | JString string
  | JArray "json list"
  | JObject "(string \<times> json) list"

fun truthy :: "json \<Rightarrow> bool" where
  "truthy JNull = False"
| "truthy (JBool b) = b"
| "truthy (JNumber x) = (x \<noteq> 0)"
| "truthy (JString s) = (s \<noteq> [])"
| "truthy (JArray xs) = (xs \<noteq> [])"
| "truthy (JObject kvs) = (kvs \<noteq> [])"

definition dict_get :: "(string \<times> json) list \<Rightarrow> string \<Rightarrow> json \<Rightarrow> json" where
  "dict_get kvs k dflt = (case map_of kvs k of None \<Rightarrow> dflt | Some v \<Rightarrow> v)"

text \<open>
  Lines 223 to 226. Where the fence occurs in the content, \<open>split\<close> gives at least two
  parts, so the index 1 is in range; \<open>split\<close> never gives the empty list.
\<close>

definition extract_fenced :: "string \<Rightarrow> string" where
  "extract_fenced content =
     (if py_contains ''```json'' content
      then hd (py_split ''```'' (py_split ''```json'' content ! 1))
      else if py_contains ''```'' content
      then hd (py_split ''```'' (py_split ''```'' content ! 1))
      else content)"

text \<open>
  What one call of \<open>provider.run\<close> under \<open>asyncio.wait_for\<close> does: it returns a response
  with its content, or the wait times out, or the call raises another \<open>Exception\<close>.
\<close>

datatype transport_outcome = Response string | TimedOut | Failed

datatype py_exn = TimeoutError | JSONDecodeError | OtherError

datatype step = Return json | Continue

record trace =
  transport_calls :: nat
  backoff_sleeps :: "nat list"

definition no_calls :: trace where
  "no_calls = \<lparr>transport_calls = 0, backoff_sleeps = []\<rparr>"

definition backoff :: "nat \<Rightarrow> nat" where
  "backoff attempt = (attempt + 1) * 2"

text \<open>
  The body of the \<open>try\<close>: the step it takes with the seconds it sleeps, or the exception
  that leaves it. A parsed value that is not a dict has no \<open>get\<close>: \<open>AttributeError\<close>.
  The exceptions are those of class \<open>Exception\<close>, which the three \<open>except\<close> clauses
  catch between them; the cancellation of the task is not one and is outside the model.
\<close>

definition try_body ::
  "(string \<Rightarrow> json option) \<Rightarrow> nat \<Rightarrow> transport_outcome \<Rightarrow> py_exn + (step \<times> nat list)" where
  "try_body json_loads attempt outcome =
     (case outcome of
        TimedOut \<Rightarrow> Inl TimeoutError
      | Failed \<Rightarrow> Inl OtherError
      | Response content \<Rightarrow>
          if content = []
          then (if attempt < 2 then Inr (Continue, [backoff attempt]) else Inr (Return JNull, []))
          else
            (case json_loads (py_strip (extract_fenced content)) of
               None \<Rightarrow> Inl JSONDecodeError
             | Some data \<Rightarrow>
                 (case data of
                    JObject kvs \<Rightarrow>
                      if truthy (dict_get kvs ''found'' (JBool False))
                      then Inr (Return (dict_get kvs ''selector'' (JString [])), [])
                      else Inr (Return JNull, [])
                  | _ \<Rightarrow> Inl OtherError)))"

text \<open>The three \<open>except\<close> clauses.\<close>

definition except_clause :: "nat \<Rightarrow> py_exn \<Rightarrow> step \<times> nat list" where
  "except_clause attempt e =
     (case e of
        TimeoutError \<Rightarrow> if attempt < 2 then (Continue, []) else (Return JNull, [])
      | JSONDecodeError \<Rightarrow>
          if attempt < 2 then (Continue, [backoff attempt]) else (Return JNull, [])
      | OtherError \<Rightarrow>
          if attempt < 2 then (Continue, [backoff attempt]) else (Return JNull, []))"

definition attempt_step ::
  "(string \<Rightarrow> json option) \<Rightarrow> nat \<Rightarrow> transport_outcome \<Rightarrow> step \<times> nat list" where
  "attempt_step json_loads attempt outcome =
     (case try_body json_loads attempt outcome of
        Inl e \<Rightarrow> except_clause attempt e
      | Inr r \<Rightarrow> r)"

text \<open>
  \<open>for attempt in range(3)\<close>, as recursion over the list of attempts still to make. The
  transport is a function of the number of calls made before; the trace counts the calls
  and records the seconds of every \<open>asyncio.sleep\<close>.
\<close>

fun run_attempts ::
  "(string \<Rightarrow> json option) \<Rightarrow> (nat \<Rightarrow> transport_outcome) \<Rightarrow> nat list \<Rightarrow> trace \<Rightarrow> json \<times> trace" where
  "run_attempts json_loads transport [] tr = (JNull, tr)"
| "run_attempts json_loads transport (attempt # rest) tr =
     (case attempt_step json_loads attempt (transport (transport_calls tr)) of
        (st, slept) \<Rightarrow>
          (case st of
             Return v \<Rightarrow>
               (v, \<lparr>transport_calls = transport_calls tr + 1,
                    backoff_sleeps = backoff_sleeps tr @ slept\<rparr>)
           | Continue \<Rightarrow>
               run_attempts json_loads transport rest
                 \<lparr>transport_calls = transport_calls tr + 1,
                  backoff_sleeps = backoff_sleeps tr @ slept\<rparr>))"

text \<open>
  \<open>resolve_selector\<close>. Besides its arguments it depends on \<open>json.loads\<close>, on whether the
  API key is set (\<open>get_provider\<close> raises \<open>ValueError\<close> otherwise) and on the transport,
  which is given the prompt. The system text sent along (the fixed policy and the
  retailer's hints) does not enter what the resolver decides and is part of the
  transport. The result is the returned value with the trace of the run.
\<close>

definition llm_resolve ::
  "(string \<Rightarrow> json option) \<Rightarrow> bool \<Rightarrow> (string \<Rightarrow> nat \<Rightarrow> transport_outcome)
     \<Rightarrow> string \<Rightarrow> string \<Rightarrow> page_elements \<Rightarrow> json \<times> trace" where
  "llm_resolve json_loads api_key_set transport description element_type pe =
     (if \<not> api_key_set then (JNull, no_calls)
      else run_attempts json_loads (transport (resolver_prompt description element_type pe))
             [0, 1, 2] no_calls)"

definition resolve_selector ::
  "(string \<Rightarrow> json option) \<Rightarrow> bool \<Rightarrow> (string \<Rightarrow> nat \<Rightarrow> transport_outcome)
     \<Rightarrow> string \<Rightarrow> string \<Rightarrow> page_elements \<Rightarrow> json \<times> trace" where
  "resolve_selector json_loads api_key_set transport description element_type pe =
     (case fast_resolve description (get_url pe) of
        None \<Rightarrow> llm_resolve json_loads api_key_set transport description element_type pe
      | Some fast_result \<Rightarrow>
          if fast_result \<noteq> [] then (JString fast_result, no_calls)
          else llm_resolve json_loads api_key_set transport description element_type pe)"

text \<open>
  Inputs for the examples. \<open>reply_not_found\<close> is the text \<open>{"found": false}\<close> and
  \<open>reply_fenced\<close> is that text in a fenced block; \<open>json_loads_sample\<close> agrees with
  \<open>json.loads\<close> on \<open>reply_not_found\<close> and on texts that are not JSON. The five
  transports time out at every call, fail at every call, answer every call with
  \<open>reply_fenced\<close>, answer every call with an empty content, and answer the first call
  with an empty content and the later ones with \<open>reply_fenced\<close>. \<open>long_page\<close> is a
  markup of 100,011 characters whose \<open><body\<close> is at index 6.
\<close>

definition reply_not_found :: string where
  "reply_not_found = ''{'' @ dq @ ''found'' @ dq @ '': false}''"

definition json_loads_sample :: "string \<Rightarrow> json option" where
  "json_loads_sample s =
     (if s = reply_not_found then Some (JObject [(''found'', JBool False)]) else None)"

definition transport_timing_out :: "string \<Rightarrow> nat \<Rightarrow> transport_outcome" where
  "transport_timing_out prompt n = TimedOut"

definition transport_failing :: "string \<Rightarrow> nat \<Rightarrow> transport_outcome" where
  "transport_failing prompt n = Failed"





definition sample_elements :: page_elements where
  "sample_elements =
     \<lparr>elements_url = Some ''https://www.amazon.com/dp/B01234'',
      elements_html = Some ''<button>Add to Cart</button>''\<rparr>"

definition long_page :: string where
  "long_page = ''<html>'' @ ''<body'' @ replicate 100000 (CHR ''x'')"

text \<open>
  For stating the retry policy. A reply fails when the attempt it answers ends in one of
  the \<open>except\<close> clauses or in the branch for an empty content: the wait timed out, the
  call raised, the content is empty, the text is not JSON, or the JSON value is not an
  object. \<open>retry_sleep\<close> is the sleep before the retry that follows a failed attempt.
\<close>

definition failed_reply :: "(string \<Rightarrow> json option) \<Rightarrow> transport_outcome \<Rightarrow> bool" where
  "failed_reply json_loads outcome =
     (case outcome of
        TimedOut \<Rightarrow> True
      | Failed \<Rightarrow> True
      | Response content \<Rightarrow>
          content = [] \<or>
          (case json_loads (py_strip (extract_fenced content)) of
             None \<Rightarrow> True
           | Some data \<Rightarrow> (case data of JObject kvs \<Rightarrow> False | _ \<Rightarrow> True)))"

definition retry_sleep :: "nat \<Rightarrow> transport_outcome \<Rightarrow> nat list" where
  "retry_sleep attempt outcome = (if outcome = TimedOut then [] else [backoff attempt])"

text \<open>
  For stating the truncation: where the slice starts, the index of the first \<open><body\<close>
  when there is one and 0 otherwise.
\<close>

definition body_offset :: "string \<Rightarrow> nat" where
  "body_offset page_html =
     (if py_contains ''<body'' page_html then nat (py_find ''<body'' page_html) else 0)"

section \<open>Properties of strings and codes\<close>

lemmas str_defs = py_upper_def py_lower_def py_strip_def is_space_def upper_char_def lower_char_def
  whitespace_def lowercase_def uppercase_def

lemma upper_hexdigits: "map upper_char hexdigits = HEXUPPER"
  by (simp add: hexdigits_def HEXUPPER_def str_defs)

lemma nibble_less:
  fixes b :: "8 word"
  shows "unat b div 16 < 16" and "unat b mod 16 < 16"
proof -
  have "unat b < 256" using unsigned_less [of b] by simp
  then show "unat b div 16 < 16" by simp
  show "unat b mod 16 < 16" by simp
qed

lemma upper_hexlify_byte:
  "py_upper (hexlify_byte b) = [HEXUPPER ! (unat b div 16), HEXUPPER ! (unat b mod 16)]"
proof -
  have l: "length hexdigits = 16" by (simp add: hexdigits_def)
  have "\<And>n. n < 16 \<Longrightarrow> upper_char (hexdigits ! n) = HEXUPPER ! n"
    using upper_hexdigits l by (metis nth_map)
  then show ?thesis by (simp add: py_upper_def hexlify_byte_def nibble_less)
qed

lemma generate_confirmation_code_digits:
  "generate_confirmation_code (b0, b1, b2) =
     [HEXUPPER ! (unat b0 div 16), HEXUPPER ! (unat b0 mod 16),
      HEXUPPER ! (unat b1 div 16), HEXUPPER ! (unat b1 mod 16),
      HEXUPPER ! (unat b2 div 16), HEXUPPER ! (unat b2 mod 16)]"
  using upper_hexlify_byte [of b0] upper_hexlify_byte [of b1] upper_hexlify_byte [of b2]
  by (simp add: token_hex_def py_upper_def)

lemma HEXUPPER_nth_inj: "i < 16 \<Longrightarrow> j < 16 \<Longrightarrow> HEXUPPER ! i = HEXUPPER ! j \<Longrightarrow> i = j"
proof -
  have d: "distinct HEXUPPER" by (simp add: HEXUPPER_def)
  have l: "length HEXUPPER = 16" by (simp add: HEXUPPER_def)
  show "i < 16 \<Longrightarrow> j < 16 \<Longrightarrow> HEXUPPER ! i = HEXUPPER ! j \<Longrightarrow> i = j"
    using d l by (simp add: nth_eq_iff_index_eq)
qed

lemma HEXUPPER_nth_mem: "n < 16 \<Longrightarrow> HEXUPPER ! n \<in> set HEXUPPER"
  by (rule nth_mem) (simp add: HEXUPPER_def)

lemma byte_of_digits:
  fixes a b :: "8 word"
  assumes "HEXUPPER ! (unat a div 16) = HEXUPPER ! (unat b div 16)"
    and "HEXUPPER ! (unat a mod 16) = HEXUPPER ! (unat b mod 16)"
  shows "a = b"
proof -
  have "unat a div 16 = unat b div 16"
    using assms(1) nibble_less HEXUPPER_nth_inj by blast
  moreover have "unat a mod 16 = unat b mod 16"
    using assms(2) nibble_less HEXUPPER_nth_inj by blast
  ultimately have "unat a = unat b" by (metis div_mult_mod_eq)
  then show ?thesis by (simp add: word_unat_eq_iff)
qed

lemma inj_generate_confirmation_code: "inj generate_confirmation_code"
proof (rule injI)
  fix x y :: "8 word \<times> 8 word \<times> 8 word"
  assume e: "generate_confirmation_code x = generate_confirmation_code y"
  obtain a b c where x: "x = (a, b, c)" by (cases x) auto
  obtain a' b' c' where y: "y = (a', b', c')" by (cases y) auto
  from e show "x = y" unfolding x y generate_confirmation_code_digits
    by (simp add: byte_of_digits)
qed

lemma card_three_bytes: "card (UNIV :: (8 word \<times> 8 word \<times> 8 word) set) = 16 ^ 6"
proof -
  have "card (UNIV :: 8 word set) = 256" by (simp add: card_word)
  then show ?thesis by (simp add: card_cartesian_product flip: UNIV_Times_UNIV)
qed

lemma generate_confirmation_code_in_HEXUPPER:
  "set (generate_confirmation_code rnd) \<subseteq> set HEXUPPER"
proof -
  obtain a b c where r: "rnd = (a, b, c)" by (cases rnd) auto
  show ?thesis
    unfolding r generate_confirmation_code_digits using HEXUPPER_nth_mem nibble_less by simp
qed

text \<open>
  C10. Whatever the three random bytes are, the generated confirmation code has exactly
  6 characters, each of them one of the upper-case hexadecimal digits 0 to 9 and A to F,
  and the codes that can be generated are 16^6 in number.
\<close>

theorem confirmation_code_format:
  "length (generate_confirmation_code rnd) = 6
   \<and> set (generate_confirmation_code rnd) \<subseteq> set ''0123456789ABCDEF''
   \<and> card (range generate_confirmation_code) = 16 ^ 6"
proof -
  obtain a b c where r: "rnd = (a, b, c)" by (cases rnd) auto
  have 1: "length (generate_confirmation_code rnd) = 6"
    unfolding r generate_confirmation_code_digits by simp
  have 2: "set (generate_confirmation_code rnd) \<subseteq> set HEXUPPER"
    by (rule generate_confirmation_code_in_HEXUPPER)
  have 3: "card (range generate_confirmation_code) = 16 ^ 6"
    using card_image [OF inj_generate_confirmation_code] card_three_bytes by simp
  from 1 2 3 show ?thesis by (simp add: HEXUPPER_def)
qed

theorem confirmation_code_format_witness:
  "generate_confirmation_code (0xA1, 0xB2, 0xC3) = ''A1B2C3''
   \<and> length ''A1B2C3'' = 6 \<and> set ''A1B2C3'' \<subseteq> set ''0123456789ABCDEF''
   \<and> card (range generate_confirmation_code) = 16 ^ 6"
proof -
  have e: "generate_confirmation_code (0xA1, 0xB2, 0xC3) = ''A1B2C3''"
    by (simp add: str_defs token_hex_def hexlify_byte_def hexdigits_def)
  show ?thesis
    using confirmation_code_format [of "(0xA1, 0xB2, 0xC3)"] unfolding e by simp
qed

section \<open>The expiry sweep\<close>

lemma fold_delete_filter:
  "fold AList.delete ks p = filter (\<lambda>(k, v). k \<notin> set ks) p"
proof (induction ks arbitrary: p)
  case Nil
  then show ?case by simp
next
  case (Cons a ks)
  have "filter (\<lambda>(k, v). k \<notin> set ks) (AList.delete a p) = filter (\<lambda>(k, v). k \<notin> set (a # ks)) p"
    by (induction p) (auto simp: AList.delete_eq)
  with Cons show ?case by simp
qed

lemma expired_keys_iff:
  assumes "distinct (map fst p)" and "(k, v) \<in> set p"
  shows "k \<in> set (map fst (filter (\<lambda>(k, v). Q v) p)) \<longleftrightarrow> Q v"
proof
  assume "k \<in> set (map fst (filter (\<lambda>(k, v). Q v) p))"
  then obtain v' where "(k, v') \<in> set p" and q: "Q v'" by auto
  with assms have "v' = v" by (meson eq_key_imp_eq_value)
  with q show "Q v" by simp
next
  assume "Q v"
  with assms(2) show "k \<in> set (map fst (filter (\<lambda>(k, v). Q v) p))" by force
qed

lemma cleanup_filter:
  assumes "distinct (map fst p)"
  shows "cleanup_expired_confirmations now p =
           filter (\<lambda>(k, v). \<not> now - created_at v > CONFIRMATION_TTL) p"
proof -
  let ?ks = "map fst (filter (\<lambda>(k, v). now - created_at v > CONFIRMATION_TTL) p)"
  have "filter (\<lambda>(k, v). k \<notin> set ?ks) p = filter (\<lambda>(k, v). \<not> now - created_at v > CONFIRMATION_TTL) p"
  proof (rule filter_cong [OF refl])
    fix x assume x: "x \<in> set p"
    obtain k v where kv: "x = (k, v)" by (cases x)
    from expired_keys_iff [OF assms, of k v "\<lambda>v. now - created_at v > CONFIRMATION_TTL"] x kv
    show "(case x of (k, v) \<Rightarrow> k \<notin> set ?ks) = (case x of (k, v) \<Rightarrow> \<not> now - created_at v > CONFIRMATION_TTL)"
      by simp
  qed
  then show ?thesis by (simp add: cleanup_expired_confirmations_def fold_delete_filter)
qed

lemma distinct_cleanup:
  "distinct (map fst p) \<Longrightarrow> distinct (map fst (cleanup_expired_confirmations now p))"
  by (simp add: cleanup_expired_confirmations_def fold_delete_filter distinct_map_filter)

lemma map_of_filter_values:
  "distinct (map fst p) \<Longrightarrow>
   map_of (filter (\<lambda>(k, v). Q v) p) c =
     (case map_of p c of None \<Rightarrow> None | Some v \<Rightarrow> if Q v then Some v else None)"
proof (induction p)
  case Nil
  then show ?case by simp
next
  case (Cons a p)
  obtain k v where a: "a = (k, v)" by (cases a)
  from Cons.prems a have "map_of p k = None" by (simp add: map_of_eq_None_iff)
  with Cons a show ?case by (auto split: option.splits)
qed

lemma map_of_cleanup:
  assumes "distinct (map fst p)"
  shows "map_of (cleanup_expired_confirmations now p) c =
     (case map_of p c of None \<Rightarrow> None
      | Some v \<Rightarrow> if now - created_at v > CONFIRMATION_TTL then None else Some v)"
  using map_of_filter_values [OF assms, of "\<lambda>v. \<not> now - created_at v > CONFIRMATION_TTL" c]
  by (simp add: cleanup_filter [OF assms] split: option.splits)

lemma map_of_cleanup_None:
  "map_of p c = None \<Longrightarrow> map_of (cleanup_expired_confirmations now p) c = None"
  by (auto simp: cleanup_expired_confirmations_def fold_delete_filter map_of_eq_None_iff)


text \<open>
  C2. On a store without duplicate keys the sweep keeps exactly the entries whose age
  \<open>now - created_at\<close> is at most 300 seconds, in their order, and so removes exactly
  those whose age is strictly greater than 300. Every confirm call sweeps before it looks
  the code up, whatever code is supplied: an entry older than 300 seconds at the call is
  no longer in the store the call leaves, and an entry that is not older and is not the
  one the call names is still there. A confirm call whose supplied code (trimmed and
  upper-cased) names an entry older than 300 seconds finds it already swept: the call is
  rejected, and the store it leaves is the swept store.
\<close>

theorem expired_confirmation_rejected:
  assumes "distinct (map fst p)"
  shows "cleanup_expired_confirmations now p = filter (\<lambda>(k, v). now - created_at v \<le> 300) p
    \<and> (\<forall>supplied k c. map_of p k = Some c \<and> now - created_at c > 300
         \<longrightarrow> map_of (cleanup_expired_confirmations now p) k = None
            \<and> map_of (fst (handle_confirm_purchase now supplied p)) k = None
            \<and> (py_upper (py_strip supplied) = k
                 \<longrightarrow> handle_confirm_purchase now supplied p
                       = (cleanup_expired_confirmations now p, Rejected)))
    \<and> (\<forall>supplied k c. map_of p k = Some c \<and> now - created_at c \<le> 300
            \<and> py_upper (py_strip supplied) \<noteq> k
         \<longrightarrow> map_of (fst (handle_confirm_purchase now supplied p)) k = Some c)"
proof -
  let ?q = "cleanup_expired_confirmations now p"
  have 1: "?q = filter (\<lambda>(k, v). now - created_at v \<le> 300) p"
    using cleanup_filter [OF assms, of now] by (simp add: CONFIRMATION_TTL_def not_less)
  have store: "fst (handle_confirm_purchase now supplied p) = ?q
      \<or> fst (handle_confirm_purchase now supplied p) = AList.delete (py_upper (py_strip supplied)) ?q"
    for supplied
    by (simp add: handle_confirm_purchase_def Let_def split: option.splits)
  have 2: "map_of ?q k = None
            \<and> map_of (fst (handle_confirm_purchase now supplied p)) k = None
            \<and> (py_upper (py_strip supplied) = k
                 \<longrightarrow> handle_confirm_purchase now supplied p = (?q, Rejected))"
    if "map_of p k = Some c" and "now - created_at c > 300" for supplied k c
  proof -
    have n: "map_of ?q k = None"
      using that map_of_cleanup [OF assms, of now k] by (simp add: CONFIRMATION_TTL_def)
    then have "map_of (AList.delete (py_upper (py_strip supplied)) ?q) k = None"
      by (simp add: delete_conv)
    with n store [of supplied]
    have "map_of (fst (handle_confirm_purchase now supplied p)) k = None" by metis
    moreover have "handle_confirm_purchase now supplied p = (?q, Rejected)"
      if "py_upper (py_strip supplied) = k"
      using that n by (simp add: handle_confirm_purchase_def)
    ultimately show ?thesis using n by blast
  qed
  have 3: "map_of (fst (handle_confirm_purchase now supplied p)) k = Some c"
    if "map_of p k = Some c" and "now - created_at c \<le> 300"
      and "py_upper (py_strip supplied) \<noteq> k" for supplied k c
  proof -
    have m: "map_of ?q k = Some c"
      using that map_of_cleanup [OF assms, of now k] by (simp add: CONFIRMATION_TTL_def)
    then have "map_of (AList.delete (py_upper (py_strip supplied)) ?q) k = Some c"
      using that(3) by (simp add: delete_conv)
    with m store [of supplied] show ?thesis by metis
  qed
  from 1 2 3 show ?thesis by blast
qed

theorem expired_confirmation_rejected_witness:
  "distinct (map fst [(''A1B2C3'', \<lparr>created_at = 0, url = ''current_cart''\<rparr>),
                      (''000000'', \<lparr>created_at = 1, url = ''current_cart''\<rparr>)])
   \<and> cleanup_expired_confirmations 301
        [(''A1B2C3'', \<lparr>created_at = 0, url = ''current_cart''\<rparr>),
         (''000000'', \<lparr>created_at = 1, url = ''current_cart''\<rparr>)]
       = [(''000000'', \<lparr>created_at = 1, url = ''current_cart''\<rparr>)]
   \<and> handle_confirm_purchase 301 (CHR 0xA0 # ''a1b2c3 '')
        [(''A1B2C3'', \<lparr>created_at = 0, url = ''current_cart''\<rparr>),
         (''000000'', \<lparr>created_at = 1, url = ''current_cart''\<rparr>)]
       = ([(''000000'', \<lparr>created_at = 1, url = ''current_cart''\<rparr>)], Rejected)
   \<and> map_of (fst (handle_confirm_purchase 301 ''ffffff''
        [(''A1B2C3'', \<lparr>created_at = 0, url = ''current_cart''\<rparr>),
         (''000000'', \<lparr>created_at = 1, url = ''current_cart''\<rparr>)])) ''A1B2C3'' = None
   \<and> map_of (fst (handle_confirm_purchase 301 ''ffffff''
        [(''A1B2C3'', \<lparr>created_at = 0, url = ''current_cart''\<rparr>),
         (''000000'', \<lparr>created_at = 1, url = ''current_cart''\<rparr>)])) ''000000''
       = Some \<lparr>created_at = 1, url = ''current_cart''\<rparr>"
proof -
  let ?p = "[(''A1B2C3'', \<lparr>created_at = 0, url = ''current_cart''\<rparr>),
             (''000000'', \<lparr>created_at = 1, url = ''current_cart''\<rparr>)]"
  have d: "distinct (map fst ?p)" by simp
  have n: "py_upper (py_strip (CHR 0xA0 # ''a1b2c3 '')) = ''A1B2C3''" by (simp add: str_defs)
  have n': "py_upper (py_strip ''ffffff'') = ''FFFFFF''" by (simp add: str_defs)
  have old: "map_of ?p ''A1B2C3'' = Some \<lparr>created_at = 0, url = ''current_cart''\<rparr>
           \<and> 301 - created_at \<lparr>created_at = 0, url = ''current_cart''\<rparr> > 300"
    by simp
  have new: "map_of ?p ''000000'' = Some \<lparr>created_at = 1, url = ''current_cart''\<rparr>
           \<and> 301 - created_at \<lparr>created_at = 1, url = ''current_cart''\<rparr> \<le> 300
           \<and> py_upper (py_strip ''ffffff'') \<noteq> ''000000''"
    unfolding n' by simp
  have sw: "cleanup_expired_confirmations 301 ?p
       = [(''000000'', \<lparr>created_at = 1, url = ''current_cart''\<rparr>)]"
    by (simp add: cleanup_expired_confirmations_def CONFIRMATION_TTL_def AList.delete_eq)
  note t = expired_confirmation_rejected [OF d, of 301]
  from t old n
  have a: "handle_confirm_purchase 301 (CHR 0xA0 # ''a1b2c3 '') ?p
             = (cleanup_expired_confirmations 301 ?p, Rejected)"
    by blast
  from t old
  have b: "map_of (fst (handle_confirm_purchase 301 ''ffffff'' ?p)) ''A1B2C3'' = None"
    by blast
  from t new
  have c: "map_of (fst (handle_confirm_purchase 301 ''ffffff'' ?p)) ''000000''
             = Some \<lparr>created_at = 1, url = ''current_cart''\<rparr>"
    by blast
  from d sw a b c show ?thesis by (simp only: prod.inject simp_thms)
qed

section \<open>Single use of a confirmation code\<close>

lemma hex_char_fixed: "c \<in> set HEXUPPER \<Longrightarrow> \<not> is_space c \<and> upper_char c = c"
proof -
  have "\<forall>c\<in>set HEXUPPER. \<not> is_space c \<and> upper_char c = c"
    by (simp add: HEXUPPER_def str_defs)
  then show "c \<in> set HEXUPPER \<Longrightarrow> \<not> is_space c \<and> upper_char c = c" by blast
qed

lemma dropWhile_none: "\<forall>x\<in>set xs. \<not> P x \<Longrightarrow> dropWhile P xs = xs"
  by (cases xs) auto

lemma normalise_generated_code:
  "py_upper (py_strip (generate_confirmation_code rnd)) = generate_confirmation_code rnd"
proof -
  let ?c = "generate_confirmation_code rnd"
  have h: "\<forall>x\<in>set ?c. \<not> is_space x \<and> upper_char x = x"
    using generate_confirmation_code_in_HEXUPPER [of rnd] hex_char_fixed by blast
  then have "py_strip ?c = ?c"
    by (simp add: py_strip_def dropWhile_none)
  moreover have "map upper_char ?c = ?c" using h by (simp add: map_idI)
  ultimately show ?thesis by (simp add: py_upper_def)
qed

lemma gate_step_keeps:
  assumes "distinct (map fst p)" and "map_of p c = Some v"
    and "\<not> names_code call c" and "\<forall>t. sweep_time call = Some t \<longrightarrow> t - created_at v \<le> 300"
  shows "distinct (map fst (gate_step call p)) \<and> map_of (gate_step call p) c = Some v"
proof (cases call)
  case (CallPreview e s ts t0 rnd u)
  show ?thesis
  proof (cases e)
    case False
    with CallPreview assms show ?thesis by (simp add: handle_preview_checkout_def)
  next
    case True
    with CallPreview assms have ne: "generate_confirmation_code rnd \<noteq> c" and t: "ts - created_at v \<le> 300"
      by auto
    have mc: "map_of (cleanup_expired_confirmations ts p) c = Some v"
      using map_of_cleanup [OF assms(1), of ts c] assms(2) t by (simp add: CONFIRMATION_TTL_def)
    obtain w where g: "gate_step call p =
        AList.update (generate_confirmation_code rnd) w (cleanup_expired_confirmations ts p)"
      using True CallPreview by (simp add: handle_preview_checkout_def Let_def)
    have "distinct (map fst (gate_step call p))"
      unfolding g using distinct_cleanup [OF assms(1), of ts] by (simp only: distinct_update)
    moreover have "map_of (gate_step call p) c = Some v"
      unfolding g using mc ne by (simp only: update_conv' fun_upd_other not_False_eq_True)
    ultimately show ?thesis by blast
  qed
next
  case (CallConfirm t s)
  with assms have ne: "py_upper (py_strip s) \<noteq> c" and t: "t - created_at v \<le> 300"
    by auto
  have mc: "map_of (cleanup_expired_confirmations t p) c = Some v"
    using map_of_cleanup [OF assms(1), of t c] assms(2) t by (simp add: CONFIRMATION_TTL_def)
  have g: "gate_step call p = cleanup_expired_confirmations t p
         \<or> gate_step call p = AList.delete (py_upper (py_strip s)) (cleanup_expired_confirmations t p)"
    using CallConfirm by (simp add: handle_confirm_purchase_def Let_def split: option.splits)
  have "map_of (AList.delete (py_upper (py_strip s)) (cleanup_expired_confirmations t p)) c = Some v"
    using mc ne by (simp add: delete_conv)
  moreover have "distinct (map fst (AList.delete (py_upper (py_strip s)) (cleanup_expired_confirmations t p)))"
    using distinct_cleanup [OF assms(1), of t] by (simp only: distinct_delete)
  ultimately show ?thesis using g mc distinct_cleanup [OF assms(1), of t] by metis
qed

lemma gate_run_keeps:
  assumes "distinct (map fst p)" and "map_of p c = Some v"
    and "\<forall>call\<in>set calls. \<not> names_code call c \<and> (\<forall>t. sweep_time call = Some t \<longrightarrow> t - created_at v \<le> 300)"
  shows "distinct (map fst (fold gate_step calls p)) \<and> map_of (fold gate_step calls p) c = Some v"
  using assms
proof (induction calls arbitrary: p)
  case Nil
  then show ?case by simp
next
  case (Cons a calls)
  from gate_step_keeps [OF Cons.prems(1,2), of a] Cons.prems(3)
  have "distinct (map fst (gate_step a p)) \<and> map_of (gate_step a p) c = Some v" by simp
  with Cons.IH [of "gate_step a p"] Cons.prems(3) show ?case by simp
qed

lemma gate_step_absent:
  assumes "map_of p c = None" and "\<not> stores_code call c"
  shows "map_of (gate_step call p) c = None"
proof (cases call)
  case (CallPreview e s ts t0 rnd u)
  with assms map_of_cleanup_None [OF assms(1), of ts] show ?thesis
    by (auto simp: handle_preview_checkout_def Let_def update_conv')
next
  case (CallConfirm t s)
  with assms map_of_cleanup_None [OF assms(1), of t] show ?thesis
    by (auto simp: handle_confirm_purchase_def Let_def delete_conv split: option.splits)
qed

lemma gate_run_absent:
  assumes "map_of p c = None" and "\<forall>call\<in>set calls. \<not> stores_code call c"
  shows "map_of (fold gate_step calls p) c = None"
  using assms
proof (induction calls arbitrary: p)
  case Nil
  then show ?case by simp
next
  case (Cons a calls)
  from gate_step_absent [OF Cons.prems(1), of a] Cons.prems(2)
  have "map_of (gate_step a p) c = None" by simp
  with Cons.IH [of "gate_step a p"] Cons.prems(2) show ?case by simp
qed

lemma gate_step_distinct:
  assumes "distinct (map fst p)" shows "distinct (map fst (gate_step call p))"
proof (cases call)
  case (CallPreview e s ts t0 rnd u)
  with assms distinct_cleanup [OF assms, of ts] show ?thesis
    by (simp add: handle_preview_checkout_def Let_def distinct_update)
next
  case (CallConfirm t s)
  with assms distinct_cleanup [OF assms, of t] show ?thesis
    by (simp add: handle_confirm_purchase_def Let_def distinct_delete split: option.splits)
qed

lemma gate_run_distinct:
  "distinct (map fst p) \<Longrightarrow> distinct (map fst (fold gate_step calls p))"
proof (induction calls arbitrary: p)
  case Nil
  then show ?case by simp
next
  case (Cons a calls)
  from gate_step_distinct [OF Cons.prems, of a] Cons.IH [of "gate_step a p"]
  show ?case by simp
qed

lemmas gate_defs = handle_confirm_purchase_def handle_preview_checkout_def
  cleanup_expired_confirmations_def CONFIRMATION_TTL_def token_hex_def hexlify_byte_def
  hexdigits_def AList.delete_eq Let_def


text \<open>
  C1, as amended. The store has no duplicate keys. A preview issues code \<open>c\<close>, stored
  at time \<open>t0\<close>. Other calls may follow, none of which stores or supplies \<open>c\<close> or runs
  its expiry sweep at a clock reading more than 300 seconds after \<open>t0\<close>. Then a confirm
  call that supplies \<open>c\<close> (up to surrounding blanks and letter case), no later than 300
  seconds after \<open>t0\<close>, is accepted with the previewed url and leaves a store without
  \<open>c\<close>. After any further calls that do not store \<open>c\<close> again, a confirm call that
  supplies \<open>c\<close> is rejected, and the store it leaves is the store it found without the
  entries older than 300 seconds at that call: the expiry sweep is the only change.
\<close>

theorem confirmation_single_use:
  assumes wf: "distinct (map fst p0)"
    and issued: "handle_preview_checkout profile_exists summary_ok ts t0 rnd url_arg p0 = (p1, Preview c)"
    and between: "\<forall>call\<in>set calls1. \<not> names_code call c \<and> (\<forall>t. sweep_time call = Some t \<longrightarrow> t - t0 \<le> 300)"
    and unexpired: "t1 - t0 \<le> 300"
    and first: "py_upper (py_strip s1) = c"
    and first_result: "handle_confirm_purchase t1 s1 (fold gate_step calls1 p1) = (p2, r1)"
    and later: "\<forall>call\<in>set calls2. \<not> stores_code call c"
    and again: "py_upper (py_strip s2) = c"
  shows "py_upper (py_strip c) = c
    \<and> r1 = Accepted c (case url_arg of None \<Rightarrow> ''current_cart'' | Some u \<Rightarrow> u)
    \<and> p2 = AList.delete c (cleanup_expired_confirmations t1 (fold gate_step calls1 p1))
    \<and> map_of p2 c = None
    \<and> handle_confirm_purchase t2 s2 (fold gate_step calls2 p2)
        = (filter (\<lambda>(k, v). t2 - created_at v \<le> 300) (fold gate_step calls2 p2), Rejected)"
proof -
  let ?v = "\<lparr>created_at = t0, url = (case url_arg of None \<Rightarrow> ''current_cart'' | Some u \<Rightarrow> u)\<rparr>"
  from issued have e: "profile_exists" and c: "c = generate_confirmation_code rnd"
    and p1: "p1 = AList.update c ?v (cleanup_expired_confirmations ts p0)"
    by (auto simp: handle_preview_checkout_def Let_def split: if_splits)
  have n: "py_upper (py_strip c) = c" unfolding c by (rule normalise_generated_code)
  have d1: "distinct (map fst p1)" unfolding p1 using distinct_cleanup [OF wf] by (simp add: distinct_update)
  have m1: "map_of p1 c = Some ?v" unfolding p1 by (simp add: update_conv')
  let ?q = "fold gate_step calls1 p1"
  from gate_run_keeps [OF d1 m1] between
  have dq: "distinct (map fst ?q)" and mq: "map_of ?q c = Some ?v" by simp_all
  have mc: "map_of (cleanup_expired_confirmations t1 ?q) c = Some ?v"
    using map_of_cleanup [OF dq, of t1 c] mq unexpired by (simp add: CONFIRMATION_TTL_def)
  from first_result mc first
  have r1: "r1 = Accepted c (case url_arg of None \<Rightarrow> ''current_cart'' | Some u \<Rightarrow> u)"
    and p2: "p2 = AList.delete c (cleanup_expired_confirmations t1 ?q)"
    by (auto simp: handle_confirm_purchase_def Let_def)
  have m2: "map_of p2 c = None" unfolding p2 by (simp add: delete_conv)
  have d2: "distinct (map fst p2)"
    unfolding p2 using distinct_cleanup [OF dq, of t1] by (simp only: distinct_delete)
  have m3: "map_of (fold gate_step calls2 p2) c = None"
    using gate_run_absent [OF m2 later] .
  have sw: "cleanup_expired_confirmations t2 (fold gate_step calls2 p2)
        = filter (\<lambda>(k, v). t2 - created_at v \<le> 300) (fold gate_step calls2 p2)"
    using cleanup_filter [OF gate_run_distinct [OF d2], of t2 calls2]
    by (simp add: CONFIRMATION_TTL_def not_less)
  have "handle_confirm_purchase t2 s2 (fold gate_step calls2 p2)
        = (cleanup_expired_confirmations t2 (fold gate_step calls2 p2), Rejected)"
    using map_of_cleanup_None [OF m3, of t2] again
    by (simp add: handle_confirm_purchase_def Let_def)
  then have "handle_confirm_purchase t2 s2 (fold gate_step calls2 p2)
        = (filter (\<lambda>(k, v). t2 - created_at v \<le> 300) (fold gate_step calls2 p2), Rejected)"
    unfolding sw .
  with n r1 p2 m2 show ?thesis by simp
qed

theorem confirmation_single_use_witness:
  "handle_preview_checkout True True 0 0 (0xA1, 0xB2, 0xC3) None []
     = ([(''A1B2C3'', \<lparr>created_at = 0, url = ''current_cart''\<rparr>)], Preview ''A1B2C3'')
   \<and> handle_confirm_purchase 10 ''a1b2c3 ''
        (fold gate_step [CallPreview True True 5 5 (0, 0, 0) None]
           [(''A1B2C3'', \<lparr>created_at = 0, url = ''current_cart''\<rparr>)])
     = ([(''000000'', \<lparr>created_at = 5, url = ''current_cart''\<rparr>)],
        Accepted ''A1B2C3'' ''current_cart'')
   \<and> handle_confirm_purchase 11 (CHR 0xA0 # ''A1B2C3'')
        (fold gate_step [CallConfirm 400 ''zzzzzz'']
           [(''000000'', \<lparr>created_at = 5, url = ''current_cart''\<rparr>)])
     = ([], Rejected)"
proof -
  let ?p1 = "[(''A1B2C3'', \<lparr>created_at = 0, url = ''current_cart''\<rparr>)]"
  let ?p2 = "[(''000000'', \<lparr>created_at = 5, url = ''current_cart''\<rparr>)]"
  let ?calls1 = "[CallPreview True True 5 5 (0, 0, 0) None]"
  let ?calls2 = "[CallConfirm 400 ''zzzzzz'']"
  have h1: "distinct (map fst ([] :: pending))" by simp
  have h2: "handle_preview_checkout True True 0 0 (0xA1, 0xB2, 0xC3) None [] = (?p1, Preview ''A1B2C3'')"
    by (simp add: gate_defs str_defs)
  have h3: "\<forall>call\<in>set ?calls1. \<not> names_code call ''A1B2C3''
              \<and> (\<forall>t. sweep_time call = Some t \<longrightarrow> t - 0 \<le> 300)"
    by (simp add: gate_defs str_defs)
  have h4: "(10::real) - 0 \<le> 300" by simp
  have h5: "py_upper (py_strip ''a1b2c3 '') = ''A1B2C3''" by (simp add: str_defs)
  have h6: "handle_confirm_purchase 10 ''a1b2c3 '' (fold gate_step ?calls1 ?p1)
              = (?p2, Accepted ''A1B2C3'' ''current_cart'')"
    by (simp add: gate_defs str_defs)
  have h7: "\<forall>call\<in>set ?calls2. \<not> stores_code call ''A1B2C3''" by simp
  have h8: "py_upper (py_strip (CHR 0xA0 # ''A1B2C3'')) = ''A1B2C3''" by (simp add: str_defs)
  have e: "filter (\<lambda>(k, v). 11 - created_at v \<le> 300) (fold gate_step ?calls2 ?p2) = []"
    by (simp add: gate_defs str_defs)
  from confirmation_single_use [OF h1 h2 h3 h4 h5 h6 h7 h8, of 11]
  have "handle_confirm_purchase 11 (CHR 0xA0 # ''A1B2C3'') (fold gate_step ?calls2 ?p2)
          = (filter (\<lambda>(k, v). 11 - created_at v \<le> 300) (fold gate_step ?calls2 ?p2), Rejected)"
    by (elim conjE)
  then have "handle_confirm_purchase 11 (CHR 0xA0 # ''A1B2C3'') (fold gate_step ?calls2 ?p2) = ([], Rejected)"
    unfolding e .
  with h2 h6 show ?thesis by (intro conjI)
qed

text \<open>
  The claim as stated says that the rejected second confirm leaves the store unchanged.
  It does not: the call sweeps first. Here another code, issued at time 0, is pending;
  the code \<open>A1B2C3\<close> is issued at 200 and accepted at 210; supplying it again at 301 is
  rejected, and that call removes the other code, by then 301 seconds old.
\<close>

theorem repeated_confirm_changes_store:
  "handle_preview_checkout True True 200 200 (0xA1, 0xB2, 0xC3) None
      [(''000000'', \<lparr>created_at = 0, url = ''current_cart''\<rparr>)]
     = ([(''000000'', \<lparr>created_at = 0, url = ''current_cart''\<rparr>),
         (''A1B2C3'', \<lparr>created_at = 200, url = ''current_cart''\<rparr>)], Preview ''A1B2C3'')
   \<and> handle_confirm_purchase 210 ''A1B2C3''
        [(''000000'', \<lparr>created_at = 0, url = ''current_cart''\<rparr>),
         (''A1B2C3'', \<lparr>created_at = 200, url = ''current_cart''\<rparr>)]
     = ([(''000000'', \<lparr>created_at = 0, url = ''current_cart''\<rparr>)],
        Accepted ''A1B2C3'' ''current_cart'')
   \<and> handle_confirm_purchase 301 ''A1B2C3''
        [(''000000'', \<lparr>created_at = 0, url = ''current_cart''\<rparr>)]
     = ([], Rejected)
   \<and> fst (handle_confirm_purchase 301 ''A1B2C3''
        [(''000000'', \<lparr>created_at = 0, url = ''current_cart''\<rparr>)])
     \<noteq> [(''000000'', \<lparr>created_at = 0, url = ''current_cart''\<rparr>)]"
  by (simp add: gate_defs str_defs)

section \<open>Properties of the browser session\<close>

lemma ensure_browser_tabs:
  "tabs (fst (ensure_browser d s)) = tabs s \<and>
   active_tab_index (fst (ensure_browser d s)) = active_tab_index s"
  by (simp add: ensure_browser_def Let_def)

lemma ensure_context_tabs:
  "tabs (fst (ensure_context d s)) = tabs s \<and>
   active_tab_index (fst (ensure_context d s)) = active_tab_index s"
  using ensure_browser_tabs [of d s]
  by (auto simp: ensure_context_def split: prod.splits sum.splits)

lemma new_page_cases:
  "(\<exists>e. snd (new_page d target s) = Inl e \<and>
        tabs (fst (new_page d target s)) = tabs s \<and>
        active_tab_index (fst (new_page d target s)) = active_tab_index s)
   \<or> (\<exists>pg. snd (new_page d target s) = Inr pg \<and>
        tabs (fst (new_page d target s)) = tabs s @ [pg] \<and>
        active_tab_index (fst (new_page d target s)) = int (length (tabs s)))"
  using ensure_context_tabs [of d s]
  by (auto simp: new_page_def Let_def split: prod.splits sum.splits option.splits)

lemma session_inv_new_page: "session_inv s \<Longrightarrow> session_inv (fst (new_page d target s))"
  using new_page_cases [of d target s] by (auto simp: session_inv_def)

lemma session_inv_switch_tab: "session_inv s \<Longrightarrow> session_inv (fst (switch_tab i s))"
  by (auto simp: session_inv_def switch_tab_def)

lemma suppress_Inr: "suppress r = Inr ()"
  by (cases r) (simp_all add: suppress_def)

lemma close_tabs_all: "close_tabs d pgs = (map PageClose pgs, Inr ())"
  by (induction pgs) (simp_all add: suppress_Inr)

lemma close_step_eq: "close_step held c ok = (if held then [c] else [], Inr ())"
  by (simp add: close_step_def suppress_Inr)

lemma close_eq:
  "close d s =
     (\<lparr>playwright = False, browser = False, browser_context = False, tabs = [], active_tab_index = - 1\<rparr>,
      map PageClose (tabs s)
        @ (if browser_context s then [ContextClose] else [])
        @ (if browser s then [BrowserClose] else [])
        @ (if playwright s then [PlaywrightStop] else []),
      Inr ())"
  by (simp add: close_def close_tabs_all close_step_eq)

lemma session_inv_close: "session_inv (fst (close d s))"
  by (simp add: close_eq session_inv_def)

text \<open>
  C6. The session invariant (the active tab index is a valid position in the tab list
  exactly when the list is not empty, and is the sentinel -1 exactly when it is empty)
  holds in the initial state, and every operation on the session (opening a tab with
  \<open>new_page\<close> or \<open>open_in_new_tab\<close>, switching tabs, listing tabs, teardown) preserves it,
  whatever the driver does.
\<close>

theorem session_invariant:
  "session_inv browser_manager_init \<and> (session_inv s \<longrightarrow> session_inv (session_step op s))"
proof -
  have "session_inv browser_manager_init" by (simp add: session_inv_def browser_manager_init_def)
  moreover have "session_inv (session_step op s)" if "session_inv s"
    using that session_inv_new_page session_inv_switch_tab session_inv_close
    by (cases op) (simp_all add: open_in_new_tab_def)
  ultimately show ?thesis by blast
qed

text \<open>
  C7. \<open>close\<close> returns normally from every session state and for every driver behaviour,
  also when closing tabs, context, browser or driver raises: each failure is suppressed and
  the later steps still run (every tab's close is called, then the close of the context,
  of the browser and of the driver where one is held). Afterwards the tab list is empty
  and the active tab index is -1.
\<close>

theorem close_never_raises:
  "snd (snd (close d s)) = Inr ()
   \<and> tabs (fst (close d s)) = [] \<and> active_tab_index (fst (close d s)) = - 1
   \<and> fst (snd (close d s)) =
       map PageClose (tabs s)
         @ (if browser_context s then [ContextClose] else [])
         @ (if browser s then [BrowserClose] else [])
         @ (if playwright s then [PlaywrightStop] else [])"
  by (simp add: close_eq)

text \<open>
  C9. When opening a tab reaches the navigation and the navigation fails, \<open>new_page\<close>
  raises the navigation error, and the tab list and the active tab index are what they
  were before the call; \<open>open_in_new_tab\<close> is the same call.
\<close>

theorem navigation_failure_keeps_tabs:
  assumes "snd (ensure_context d s) = Inr ()" and "context_new_page d = Some pg"
    and "\<not> goto_ok d pg target"
  shows "snd (new_page d target s) = Inl NavigationFailed
    \<and> tabs (fst (new_page d target s)) = tabs s
    \<and> active_tab_index (fst (new_page d target s)) = active_tab_index s
    \<and> open_in_new_tab d target s = new_page d target s"
  using assms ensure_context_tabs [of d s]
  by (auto simp: new_page_def open_in_new_tab_def split: prod.splits sum.splits)


lemmas session_defs = new_page_def open_in_new_tab_def ensure_context_def ensure_browser_def
  switch_tab_def browser_manager_init_def driver_ok_def driver_failing_def Let_def

theorem session_invariant_witness:
  "session_inv browser_manager_init
   \<and> session_step (NewPage driver_ok ''https://www.amazon.com/'') browser_manager_init
       = \<lparr>playwright = True, browser = True, browser_context = True, tabs = [7],
          active_tab_index = 0\<rparr>
   \<and> session_inv \<lparr>playwright = True, browser = True, browser_context = True, tabs = [7],
          active_tab_index = 0\<rparr>"
proof -
  have e: "session_step (NewPage driver_ok ''https://www.amazon.com/'') browser_manager_init
       = \<lparr>playwright = True, browser = True, browser_context = True, tabs = [7],
          active_tab_index = 0\<rparr>"
    by (simp add: session_defs)
  from session_invariant [of browser_manager_init "NewPage driver_ok ''https://www.amazon.com/''"]
  show ?thesis unfolding e by simp
qed

theorem close_never_raises_witness:
  "snd (snd (close driver_failing
       \<lparr>playwright = True, browser = True, browser_context = True, tabs = [7, 8],
        active_tab_index = 1\<rparr>)) = Inr ()
   \<and> tabs (fst (close driver_failing
       \<lparr>playwright = True, browser = True, browser_context = True, tabs = [7, 8],
        active_tab_index = 1\<rparr>)) = []
   \<and> active_tab_index (fst (close driver_failing
       \<lparr>playwright = True, browser = True, browser_context = True, tabs = [7, 8],
        active_tab_index = 1\<rparr>)) = - 1
   \<and> fst (snd (close driver_failing
       \<lparr>playwright = True, browser = True, browser_context = True, tabs = [7, 8],
        active_tab_index = 1\<rparr>))
     = [PageClose 7, PageClose 8, ContextClose, BrowserClose, PlaywrightStop]"
  using close_never_raises [of driver_failing
      "\<lparr>playwright = True, browser = True, browser_context = True, tabs = [7, 8],
        active_tab_index = 1\<rparr>"]
  by simp

theorem navigation_failure_keeps_tabs_witness:
  "new_page driver_failing ''https://www.amazon.com/'' browser_manager_init
     = (\<lparr>playwright = True, browser = True, browser_context = True, tabs = [],
         active_tab_index = - 1\<rparr>, Inl NavigationFailed)
   \<and> open_in_new_tab driver_failing ''https://www.amazon.com/'' browser_manager_init
     = new_page driver_failing ''https://www.amazon.com/'' browser_manager_init"
proof -
  have h1: "snd (ensure_context driver_failing browser_manager_init) = Inr ()"
    by (simp add: session_defs)
  have h2: "context_new_page driver_failing = Some 7" by (simp add: driver_failing_def)
  have h3: "\<not> goto_ok driver_failing 7 ''https://www.amazon.com/''"
    by (simp add: driver_failing_def)
  have e: "fst (new_page driver_failing ''https://www.amazon.com/'' browser_manager_init)
      = \<lparr>playwright = True, browser = True, browser_context = True, tabs = [],
         active_tab_index = - 1\<rparr>"
    by (simp add: session_defs)
  from navigation_failure_keeps_tabs [OF h1 h2 h3] e show ?thesis by (simp add: prod_eq_iff)
qed

section \<open>Properties of the element resolver\<close>

lemma known_selectors_nonempty:
  assumes "map_of KNOWN_SELECTORS retailer = Some selectors" and "map_of selectors k = Some sel"
  shows "sel \<noteq> []"
proof -
  have "\<forall>(r, sels)\<in>set KNOWN_SELECTORS. \<forall>(k, sel)\<in>set sels. sel \<noteq> []"
    by (simp add: KNOWN_SELECTORS_def dq_def)
  with map_of_SomeD [OF assms(1)] map_of_SomeD [OF assms(2)] show ?thesis by fastforce
qed

lemma attempt_step_failed:
  "failed_reply json_loads outcome \<Longrightarrow>
   attempt_step json_loads attempt outcome =
     (if attempt < 2 then (Continue, retry_sleep attempt outcome) else (Return JNull, []))"
  by (auto simp: failed_reply_def attempt_step_def try_body_def except_clause_def retry_sleep_def
      split: transport_outcome.splits option.splits json.splits)

lemma attempt_step_answered:
  "\<not> failed_reply json_loads outcome \<Longrightarrow> \<exists>v. attempt_step json_loads attempt outcome = (Return v, [])"
  by (auto simp: failed_reply_def attempt_step_def try_body_def
      split: transport_outcome.splits option.splits json.splits)

lemma llm_resolve_trace:
  assumes "api_key_set"
    and t: "t = transport (resolver_prompt description element_type pe)"
    and r: "r = llm_resolve json_loads api_key_set transport description element_type pe"
  shows "transport_calls (snd r) =
       (if \<not> failed_reply json_loads (t 0) then 1
        else if \<not> failed_reply json_loads (t 1) then 2 else 3)"
    and "backoff_sleeps (snd r) =
       (if \<not> failed_reply json_loads (t 0) then []
        else retry_sleep 0 (t 0)
             @ (if \<not> failed_reply json_loads (t 1) then [] else retry_sleep 1 (t 1)))"
    and "failed_reply json_loads (t 0) \<and> failed_reply json_loads (t 1)
           \<and> failed_reply json_loads (t 2) \<longrightarrow> fst r = JNull"
proof -
  have r': "r = run_attempts json_loads t [0, 1, 2] no_calls"
    using assms by (simp add: llm_resolve_def)
  consider (a) "\<not> failed_reply json_loads (t 0)"
    | (b) "failed_reply json_loads (t 0)" "\<not> failed_reply json_loads (t 1)"
    | (c) "failed_reply json_loads (t 0)" "failed_reply json_loads (t 1)"
          "\<not> failed_reply json_loads (t 2)"
    | (d) "failed_reply json_loads (t 0)" "failed_reply json_loads (t 1)"
          "failed_reply json_loads (t 2)"
    by blast
  then have "transport_calls (snd r) =
       (if \<not> failed_reply json_loads (t 0) then 1
        else if \<not> failed_reply json_loads (t 1) then 2 else 3)
     \<and> backoff_sleeps (snd r) =
       (if \<not> failed_reply json_loads (t 0) then []
        else retry_sleep 0 (t 0)
             @ (if \<not> failed_reply json_loads (t 1) then [] else retry_sleep 1 (t 1)))
     \<and> (failed_reply json_loads (t 0) \<and> failed_reply json_loads (t 1)
           \<and> failed_reply json_loads (t 2) \<longrightarrow> fst r = JNull)"
  proof cases
    case a
    from attempt_step_answered [OF a, of 0] obtain v
      where "attempt_step json_loads 0 (t 0) = (Return v, [])" by blast
    with a show ?thesis by (simp add: r' no_calls_def)
  next
    case b
    from attempt_step_answered [OF b(2), of 1] obtain v
      where "attempt_step json_loads 1 (t 1) = (Return v, [])" by blast
    with b attempt_step_failed [OF b(1), of 0] show ?thesis
      by (simp add: r' no_calls_def)
  next
    case c
    from attempt_step_answered [OF c(3), of 2] obtain v
      where "attempt_step json_loads 2 (t 2) = (Return v, [])" by blast
    with c attempt_step_failed [OF c(1), of 0] attempt_step_failed [OF c(2), of 1]
    show ?thesis by (simp add: r' no_calls_def numeral_2_eq_2)
  next
    case d
    with attempt_step_failed [OF d(1), of 0] attempt_step_failed [OF d(2), of 1]
      attempt_step_failed [OF d(3), of 2]
    show ?thesis by (simp add: r' no_calls_def numeral_2_eq_2)
  qed
  then show "transport_calls (snd r) =
       (if \<not> failed_reply json_loads (t 0) then 1
        else if \<not> failed_reply json_loads (t 1) then 2 else 3)"
    and "backoff_sleeps (snd r) =
       (if \<not> failed_reply json_loads (t 0) then []
        else retry_sleep 0 (t 0)
             @ (if \<not> failed_reply json_loads (t 1) then [] else retry_sleep 1 (t 1)))"
    and "failed_reply json_loads (t 0) \<and> failed_reply json_loads (t 1)
           \<and> failed_reply json_loads (t 2) \<longrightarrow> fst r = JNull"
    by blast+
qed


lemma fast_resolve_miss:
  assumes "fast_resolve description (get_url pe) = None"
  shows "resolve_selector json_loads api_key_set transport description element_type pe
      = llm_resolve json_loads api_key_set transport description element_type pe"
  using assms by (simp add: resolve_selector_def)

lemmas resolver_defs = resolve_selector_def llm_resolve_def attempt_step_def try_body_def
  except_clause_def backoff_def no_calls_def

lemma sample_url: "get_url sample_elements = ''https://www.amazon.com/dp/B01234''"
  by (simp add: get_url_def sample_elements_def)

lemma sample_retailer: "detect_retailer (get_url sample_elements) = Some ''amazon''"
  unfolding sample_url
  by (simp add: detect_retailer_def RETAILER_URL_PATTERNS_def py_contains_def shift_index_def
      str_defs)

lemma sample_miss: "fast_resolve ''checkout button'' (get_url sample_elements) = None"
  by (simp add: fast_resolve_def sample_retailer KNOWN_SELECTORS_def str_defs)

text \<open>
  C5. When the retailer detected from the page url has a table of known selectors and
  the lower-cased, trimmed description is a key of that table, \<open>resolve_selector\<close> returns
  the selector the table gives for it, makes no transport call and sleeps no time. The
  result is the same whatever \<open>json.loads\<close>, the API key and the transport are: the
  resolver does not consult them, so two runs on equal arguments give equal results.
\<close>

theorem fast_path_no_transport:
  assumes "detect_retailer (get_url pe) = Some retailer"
    and "map_of KNOWN_SELECTORS retailer = Some selectors"
    and "map_of selectors (py_strip (py_lower description)) = Some sel"
  shows "fst (resolve_selector json_loads api_key_set transport description element_type pe)
        = JString sel
    \<and> transport_calls
        (snd (resolve_selector json_loads api_key_set transport description element_type pe)) = 0
    \<and> backoff_sleeps
        (snd (resolve_selector json_loads api_key_set transport description element_type pe)) = []
    \<and> resolve_selector json_loads' api_key_set' transport' description element_type pe
        = resolve_selector json_loads api_key_set transport description element_type pe"
proof -
  have f: "fast_resolve description (get_url pe) = Some sel"
    using assms by (simp add: fast_resolve_def)
  have "sel \<noteq> []" using known_selectors_nonempty [OF assms(2,3)] .
  with f show ?thesis by (simp add: resolve_selector_def no_calls_def)
qed

theorem fast_path_no_transport_witness:
  "detect_retailer (get_url sample_elements) = Some ''amazon''
   \<and> fst (resolve_selector json_loads_sample False transport_failing ''Add to Cart'' ''button''
        sample_elements) = JString ''#add-to-cart-button''
   \<and> transport_calls (snd (resolve_selector json_loads_sample False transport_failing
        ''Add to Cart'' ''button'' sample_elements)) = 0"
proof -
  have h1: "detect_retailer (get_url sample_elements) = Some ''amazon''"
    by (rule sample_retailer)
  have "\<exists>selectors. map_of KNOWN_SELECTORS ''amazon'' = Some selectors
      \<and> map_of selectors (py_strip (py_lower ''Add to Cart'')) = Some ''#add-to-cart-button''"
    by (simp add: KNOWN_SELECTORS_def str_defs)
  then obtain selectors where h2: "map_of KNOWN_SELECTORS ''amazon'' = Some selectors"
    and h3: "map_of selectors (py_strip (py_lower ''Add to Cart'')) = Some ''#add-to-cart-button''"
    by blast
  from fast_path_no_transport [OF h1 h2 h3, where json_loads = json_loads_sample
      and api_key_set = False and transport = transport_failing and element_type = "''button''"]
    h1 show ?thesis by blast
qed



text \<open>
  C3, as amended. The static table misses and the API key is set. Let \<open>t 0\<close>, \<open>t 1\<close>,
  \<open>t 2\<close> be what the first, second and third transport call would give. The resolver
  makes at least one and at most three transport calls: it stops at the first reply that
  does not fail, and it makes the next call after a failed one (a timeout, an error of
  the call, an empty content, a text that is not JSON, a JSON value that is not an
  object). Before the retry that follows a failed attempt it sleeps \<open>(attempt + 1) * 2\<close>
  seconds, 2 after the first attempt and 4 after the second, unless the attempt timed
  out: then it retries at once. When all three replies fail the result is not-found.
  The result is a value in every case: no exception of an attempt leaves the function.
  Without the API key the result is not-found and no transport call is made.
\<close>

theorem retry_policy:
  assumes miss: "fast_resolve description (get_url pe) = None"
    and key: "api_key_set"
    and t: "t = transport (resolver_prompt description element_type pe)"
    and r: "r = resolve_selector json_loads api_key_set transport description element_type pe"
  shows "1 \<le> transport_calls (snd r) \<and> transport_calls (snd r) \<le> 3
    \<and> transport_calls (snd r) =
        (if \<not> failed_reply json_loads (t 0) then 1
         else if \<not> failed_reply json_loads (t 1) then 2 else 3)
    \<and> backoff_sleeps (snd r) =
        (if \<not> failed_reply json_loads (t 0) then []
         else (if t 0 = TimedOut then [] else [2])
              @ (if \<not> failed_reply json_loads (t 1) then []
                 else (if t 1 = TimedOut then [] else [4])))
    \<and> (failed_reply json_loads (t 0) \<and> failed_reply json_loads (t 1)
          \<and> failed_reply json_loads (t 2) \<longrightarrow> fst r = JNull)
    \<and> resolve_selector json_loads False transport description element_type pe
        = (JNull, \<lparr>transport_calls = 0, backoff_sleeps = []\<rparr>)"
proof -
  have r': "r = llm_resolve json_loads api_key_set transport description element_type pe"
    using r by (simp add: fast_resolve_miss [OF miss])
  note tr = llm_resolve_trace [OF key t r']
  have 1: "transport_calls (snd r) =
        (if \<not> failed_reply json_loads (t 0) then 1
         else if \<not> failed_reply json_loads (t 1) then 2 else 3)"
    using tr(1) .
  have 2: "backoff_sleeps (snd r) =
        (if \<not> failed_reply json_loads (t 0) then []
         else (if t 0 = TimedOut then [] else [2])
              @ (if \<not> failed_reply json_loads (t 1) then []
                 else (if t 1 = TimedOut then [] else [4])))"
    using tr(2) by (simp add: retry_sleep_def backoff_def)
  have 3: "failed_reply json_loads (t 0) \<and> failed_reply json_loads (t 1)
          \<and> failed_reply json_loads (t 2) \<longrightarrow> fst r = JNull"
    using tr(3) .
  have 4: "1 \<le> transport_calls (snd r) \<and> transport_calls (snd r) \<le> 3"
    unfolding 1 by simp
  have 5: "resolve_selector json_loads False transport description element_type pe
        = (JNull, \<lparr>transport_calls = 0, backoff_sleeps = []\<rparr>)"
    by (simp add: fast_resolve_miss [OF miss] llm_resolve_def no_calls_def)
  from 1 2 3 4 5 show ?thesis by blast
qed

theorem retry_policy_witness:
  "fast_resolve ''checkout button'' (get_url sample_elements) = None
   \<and> transport_calls (snd (resolve_selector json_loads_sample True transport_failing
        ''checkout button'' ''button'' sample_elements)) = 3
   \<and> backoff_sleeps (snd (resolve_selector json_loads_sample True transport_failing
        ''checkout button'' ''button'' sample_elements)) = [2, 4]
   \<and> fst (resolve_selector json_loads_sample True transport_failing
        ''checkout button'' ''button'' sample_elements) = JNull"
proof -
  have h1: "fast_resolve ''checkout button'' (get_url sample_elements) = None"
    by (rule sample_miss)
  have h2: "True" by simp
  have f: "failed_reply json_loads_sample
             (transport_failing (resolver_prompt ''checkout button'' ''button'' sample_elements) n)"
    for n by (simp add: failed_reply_def transport_failing_def)
  have g: "transport_failing (resolver_prompt ''checkout button'' ''button'' sample_elements) n
             \<noteq> TimedOut"
    for n by (simp add: transport_failing_def)
  from retry_policy [OF h1 h2 refl refl, where json_loads = json_loads_sample
      and transport = transport_failing and element_type = "''button''"]
    f g h1 show ?thesis by simp
qed

text \<open>
  The claim as stated has the resolver back off before every retry, also after a timeout.
  It does not: the \<open>except\<close> clause for a timeout continues without sleeping. With a
  transport that times out at every call the three calls are made and no sleep lies
  between them, where the claim has sleeps of 2 and 4 seconds.
\<close>

theorem timeout_retry_without_backoff:
  "fast_resolve ''checkout button'' (get_url sample_elements) = None
   \<and> resolve_selector json_loads_sample True transport_timing_out
        ''checkout button'' ''button'' sample_elements
      = (JNull, \<lparr>transport_calls = 3, backoff_sleeps = []\<rparr>)
   \<and> backoff_sleeps (snd (resolve_selector json_loads_sample True transport_timing_out
        ''checkout button'' ''button'' sample_elements)) \<noteq> [backoff 0, backoff 1]"
  by (simp add: sample_miss resolver_defs transport_timing_out_def)


subsection \<open>Truncation of the page markup\<close>

lemma py_find_prefix:
  "0 \<le> py_find pat s \<Longrightarrow> prefix pat (drop (nat (py_find pat s)) s)"
proof (induction s)
  case Nil
  then show ?case by (simp split: if_splits)
next
  case (Cons c cs)
  show ?case
  proof (cases "prefix pat (c # cs)")
    case True
    then show ?thesis by simp
  next
    case False
    with Cons.prems have p: "0 \<le> py_find pat cs" by (simp add: shift_index_def split: if_splits)
    then have "nat (py_find pat cs + 1) = Suc (nat (py_find pat cs))" by simp
    with Cons.IH [OF p] False p show ?thesis by (simp add: shift_index_def)
  qed
qed

lemma py_find_first:
  "0 \<le> py_find pat s \<Longrightarrow> i < nat (py_find pat s) \<Longrightarrow> \<not> prefix pat (drop i s)"
proof (induction s arbitrary: i)
  case Nil
  then show ?case by (simp split: if_splits)
next
  case (Cons c cs)
  show ?case
  proof (cases "prefix pat (c # cs)")
    case True
    with Cons.prems show ?thesis by simp
  next
    case False
    with Cons.prems have p: "0 \<le> py_find pat cs" by (simp add: shift_index_def split: if_splits)
    then have n: "nat (py_find pat (c # cs)) = Suc (nat (py_find pat cs))"
      using False by (simp add: shift_index_def)
    show ?thesis
    proof (cases i)
      case 0
      with False show ?thesis by simp
    next
      case (Suc j)
      with Cons.prems(2) n have "j < nat (py_find pat cs)" by simp
      from Cons.IH [OF p this] Suc show ?thesis by simp
    qed
  qed
qed

lemma py_find_replicate:
  assumes "pat \<noteq> []" and "hd pat \<noteq> c"
  shows "py_find pat (replicate n c @ pat) = int n"
proof (induction n)
  case 0
  from assms(1) show ?case by (cases pat) simp_all
next
  case (Suc n)
  from assms have "\<not> prefix pat (c # replicate n c @ pat)" by (cases pat) simp_all
  with Suc show ?case by (simp add: shift_index_def)
qed

lemma prefix_take: "prefix p xs \<Longrightarrow> length p \<le> n \<Longrightarrow> prefix p (take n xs)"
  by (auto simp: prefix_def)

lemma truncate_html_long:
  assumes "max_length < length h"
  shows "truncate_html h = take max_length (drop (body_offset h) h) @ truncation_marker"
proof (cases "py_find ''<body'' h > 0")
  case True
  with assms show ?thesis by (simp add: truncate_html_def body_offset_def py_contains_def)
next
  case False
  then have "body_offset h = 0" by (simp add: body_offset_def py_contains_def)
  with assms False show ?thesis by (simp add: truncate_html_def)
qed

lemma sublist_build_prompt: "sublist page_html (build_prompt description element_type page_html)"
proof -
  have "build_prompt description element_type page_html =
      (''Find the element matching this description:'' @ nl @ dq @ description @ dq @ nl @ nl
        @ ''Element type hint: '' @ element_type @ nl @ nl @ ''PAGE HTML:'' @ nl
        @ ''```html'' @ nl)
      @ page_html
      @ (nl @ ''```'' @ nl @ nl @ ''Return JSON with selector, found, and reason.'')"
    by (simp add: build_prompt_def)
  then show ?thesis by (metis sublist_appendI)
qed

text \<open>
  C8, as amended. Markup of at most 100,000 characters goes into the prompt as it is.
  Of longer markup the prompt has a slice with the truncation marker appended. The slice
  starts at the first \<open><body\<close> of the markup when there is one, and at the start of the
  markup otherwise, and runs for 100,000 characters or to the end of the markup,
  whichever comes first: it has 100,000 characters only when the markup has that many
  from where the slice starts.
\<close>

theorem html_truncation:
  "(length h \<le> max_length \<longrightarrow> truncate_html h = h)
   \<and> (max_length < length h \<longrightarrow>
        truncate_html h = take max_length (drop (body_offset h) h) @ truncation_marker
        \<and> length (take max_length (drop (body_offset h) h))
            = min max_length (length h - body_offset h)
        \<and> (py_contains ''<body'' h \<longrightarrow> prefix ''<body'' (truncate_html h)))
   \<and> (py_contains ''<body'' h \<longrightarrow> prefix ''<body'' (drop (body_offset h) h))
   \<and> (\<not> py_contains ''<body'' h \<longrightarrow> body_offset h = 0)
   \<and> (\<forall>i<body_offset h. \<not> prefix ''<body'' (drop i h))
   \<and> sublist (truncate_html (get_html pe)) (resolver_prompt description element_type pe)
   \<and> max_length = 100000
   \<and> truncation_marker = CHR 0x0A # ''<!-- HTML truncated -->''"
proof -
  have 1: "length h \<le> max_length \<longrightarrow> truncate_html h = h"
    by (simp add: truncate_html_def)
  have 4: "py_contains ''<body'' h \<longrightarrow> prefix ''<body'' (drop (body_offset h) h)"
    using py_find_prefix [of "''<body''" h] by (simp add: body_offset_def py_contains_def)
  have 2: "truncate_html h = take max_length (drop (body_offset h) h) @ truncation_marker
        \<and> length (take max_length (drop (body_offset h) h))
            = min max_length (length h - body_offset h)
        \<and> (py_contains ''<body'' h \<longrightarrow> prefix ''<body'' (truncate_html h))"
    if l: "max_length < length h"
  proof -
    have a: "truncate_html h = take max_length (drop (body_offset h) h) @ truncation_marker"
      using truncate_html_long [OF l] .
    have b: "length (take max_length (drop (body_offset h) h))
            = min max_length (length h - body_offset h)"
      by (simp add: min.commute)
    have c: "prefix ''<body'' (truncate_html h)" if "py_contains ''<body'' h"
    proof -
      from 4 that have "prefix ''<body'' (drop (body_offset h) h)" by blast
      then have "prefix ''<body'' (take max_length (drop (body_offset h) h))"
        by (rule prefix_take) (simp add: max_length_def)
      then show ?thesis unfolding a by (rule prefix_prefix)
    qed
    from a b c show ?thesis by blast
  qed
  have 5: "\<not> py_contains ''<body'' h \<longrightarrow> body_offset h = 0"
    by (simp add: body_offset_def)
  have 6: "\<forall>i<body_offset h. \<not> prefix ''<body'' (drop i h)"
    using py_find_first [of "''<body''" h]
    by (auto simp: body_offset_def py_contains_def split: if_splits)
  have 7: "sublist (truncate_html (get_html pe)) (resolver_prompt description element_type pe)"
    unfolding resolver_prompt_def by (rule sublist_build_prompt)
  have 8: "max_length = 100000" by (simp add: max_length_def)
  have 9: "truncation_marker = CHR 0x0A # ''<!-- HTML truncated -->''"
    by (simp add: truncation_marker_def nl_def)
  from 1 2 4 5 6 7 8 9 show ?thesis by blast
qed

lemma truncate_html_padded:
  assumes "max_length < n + 5" and "0 < n"
  shows "truncate_html (replicate n (CHR '' '') @ ''<body'')
      = take max_length ''<body'' @ truncation_marker"
proof -
  have f: "py_find ''<body'' (replicate n (CHR '' '') @ ''<body'') = int n"
    by (rule py_find_replicate) simp_all
  from assms show ?thesis by (simp add: truncate_html_def f)
qed

theorem html_truncation_witness:
  "truncate_html ''<html><body>Add to Cart</body></html>'' = ''<html><body>Add to Cart</body></html>''
   \<and> length long_page = 100011
   \<and> max_length < length long_page
   \<and> body_offset long_page = 6
   \<and> truncate_html long_page = ''<body'' @ replicate 99995 (CHR ''x'') @ truncation_marker
   \<and> length (''<body'' @ replicate 99995 (CHR ''x'')) = 100000"
proof -
  have s: "length ''<html><body>Add to Cart</body></html>'' \<le> max_length"
    by (simp add: max_length_def)
  from html_truncation [of "''<html><body>Add to Cart</body></html>''"] s
  have 1: "truncate_html ''<html><body>Add to Cart</body></html>''
      = ''<html><body>Add to Cart</body></html>''"
    by blast
  have n: "length long_page = 100011" by (simp add: long_page_def)
  have l: "max_length < length long_page"
    by (simp add: max_length_def long_page_def)
  have f: "py_find ''<body'' long_page = 6"
    by (simp add: long_page_def shift_index_def)
  have o: "body_offset long_page = 6"
    by (simp add: body_offset_def py_contains_def f)
  have d: "take max_length (drop 6 long_page) = ''<body'' @ replicate 99995 (CHR ''x'')"
    by (simp add: long_page_def max_length_def)
  from html_truncation [of long_page] l
  have "truncate_html long_page
      = take max_length (drop (body_offset long_page) long_page) @ truncation_marker"
    by blast
  then have 2: "truncate_html long_page
      = ''<body'' @ replicate 99995 (CHR ''x'') @ truncation_marker"
    unfolding o d by simp
  have 3: "length (''<body'' @ replicate 99995 (CHR ''x'')) = 100000" by simp
  from 1 n l o 2 3 show ?thesis by blast
qed

text \<open>
  The claim as stated has a slice of 100,000 characters in the prompt for every markup
  longer than that. The slice is shorter when the first \<open><body\<close> is less than 100,000
  characters before the end. Here the markup is 99,996 blanks followed by \<open><body\<close>,
  100,001 characters; the slice is \<open><body\<close>, 5 characters, with the marker the
  truncated markup has 29, and the whole prompt has fewer than 100,000.
\<close>

theorem truncated_slice_shorter:
  "length (replicate 99996 (CHR '' '') @ ''<body'') = 100001
   \<and> max_length < length (replicate 99996 (CHR '' '') @ ''<body'')
   \<and> truncate_html (replicate 99996 (CHR '' '') @ ''<body'') = ''<body'' @ truncation_marker
   \<and> length (truncate_html (replicate 99996 (CHR '' '') @ ''<body'')) = 29
   \<and> length (resolver_prompt ''checkout button'' ''button''
        \<lparr>elements_url = None,
         elements_html = Some (replicate 99996 (CHR '' '') @ ''<body'')\<rparr>) < 100000"
proof -
  have t: "truncate_html (replicate 99996 (CHR '' '') @ ''<body'')
      = take max_length ''<body'' @ truncation_marker"
    by (rule truncate_html_padded) (simp_all add: max_length_def)
  have p: "length (resolver_prompt ''checkout button'' ''button''
        \<lparr>elements_url = None,
         elements_html = Some (replicate 99996 (CHR '' '') @ ''<body'')\<rparr>) < 100000"
    by (simp add: resolver_prompt_def get_html_def t build_prompt_def max_length_def
        truncation_marker_def nl_def dq_def)
  show ?thesis unfolding t using p by (simp add: max_length_def truncation_marker_def nl_def)
qed

end
